theory Spec2Isabelle
  imports Complex_Main "HOL-Library.Char_ord" "HOL-Library.List_Lexorder"
begin

section \<open>Numeric primitives\<close>

text \<open>
  Coordinates and measurements are 64-bit floats in the source. The grid, the
  surfaces, the rasters and the stacks are modelled on real numbers: the arithmetic
  the code writes down, evaluated exactly. Where rounding or overflow decides what the
  program does, the floats themselves are modelled (section ``64-bit floats''): the
  conversion \<open>int(...)\<close> of the grid builder, which raises on \<open>inf\<close> and \<open>nan\<close>, and the
  inverse-distance estimate, whose rounded value is compared with the range of the
  samples.
\<close>

datatype py_exn = ValueError | OverflowError | KeyError | IndexError | FileNotFoundError

text \<open>Python's \<open>int(x)\<close> on a float truncates towards zero.\<close>

definition py_int :: "real \<Rightarrow> int" where
  "py_int x = (if 0 \<le> x then \<lfloor>x\<rfloor> else \<lceil>x\<rceil>)"

text \<open>
  \<open>np.linspace(start, stop, num)\<close> with the default \<open>endpoint=True\<close>: a negative
  \<open>num\<close> raises \<open>ValueError\<close>, \<open>num = 0\<close> gives the empty array, \<open>num = 1\<close> gives
  \<open>[start]\<close>, and otherwise the points are \<open>start + i * step\<close> with the last one set
  to \<open>stop\<close>.
\<close>

definition linspace_pts :: "real \<Rightarrow> real \<Rightarrow> nat \<Rightarrow> real list" where
  "linspace_pts start stop num =
     (if num = 1 then [start]
      else map (\<lambda>i. if i = num - 1 then stop
                       else real i * ((stop - start) / real (num - 1)) + start) [0..<num])"

definition linspace :: "real \<Rightarrow> real \<Rightarrow> int \<Rightarrow> py_exn + real list" where
  "linspace start stop num =
     (if num < 0 then Inl ValueError else Inr (linspace_pts start stop (nat num)))"

text \<open>\<open>.min()\<close> and \<open>.max()\<close> of a non-empty numeric array.\<close>

definition arr_min :: "real list \<Rightarrow> real" where
  "arr_min xs = fold min (tl xs) (hd xs)"

definition arr_max :: "real list \<Rightarrow> real" where
  "arr_max xs = fold max (tl xs) (hd xs)"

section \<open>64-bit floats\<close>

text \<open>
  A float64 is a finite number, \<open>inf\<close>, \<open>-inf\<close> or \<open>nan\<close>. \<open>rnd\<close> rounds a real number to
  the nearest float64, ties to even: the result is a multiple of \<open>2 ^ e\<close> with
  \<open>e = max (-1074) (ilog2 |x| - 52)\<close> (53 significant bits, gradual underflow), and a
  result of magnitude \<open>2 ^ 1024\<close> or more is an infinity. \<open>ilog2 x\<close> is the binary
  exponent of \<open>x\<close>, searched upwards from \<open>-1100\<close>. The sign of a zero is not modelled.
\<close>

datatype f64 = Fin real | PInf | NInf | NaN

definition pow2 :: "int \<Rightarrow> real" where
  "pow2 e = (if 0 \<le> e then 2 ^ nat e else 1 / 2 ^ nat (- e))"

fun find_exp :: "nat \<Rightarrow> int \<Rightarrow> real \<Rightarrow> int" where
  "find_exp 0 k x = k"
| "find_exp (Suc n) k x = (if pow2 (k + 1) \<le> x then find_exp n (k + 1) x else k)"

definition ilog2 :: "real \<Rightarrow> int" where
  "ilog2 x = find_exp 2200 (- 1100) x"

definition round_even :: "real \<Rightarrow> int" where
  "round_even x =
     (let f = \<lfloor>x\<rfloor>; r = x - of_int f
      in if r < 1 / 2 then f else if 1 / 2 < r then f + 1 else if even f then f else f + 1)"

definition rnd :: "real \<Rightarrow> f64" where
  "rnd x =
     (if x = 0 then Fin 0
      else let e = max (- 1074) (ilog2 \<bar>x\<bar> - 52);
               y = of_int (round_even (x / pow2 e)) * pow2 e
           in if pow2 1024 \<le> \<bar>y\<bar> then (if 0 < x then PInf else NInf) else Fin y)"

text \<open>
  The arithmetic of numpy on float64: every operation rounds its exact result, an
  overflow gives an infinity, and nothing raises (a division by zero gives \<open>inf\<close> or
  \<open>nan\<close> with a warning).
\<close>

fun fneg :: "f64 \<Rightarrow> f64" where
  "fneg (Fin x) = Fin (- x)"
| "fneg PInf = NInf"
| "fneg NInf = PInf"
| "fneg NaN = NaN"

fun fadd :: "f64 \<Rightarrow> f64 \<Rightarrow> f64" where
  "fadd (Fin x) (Fin y) = rnd (x + y)"
| "fadd NaN b = NaN"
| "fadd a NaN = NaN"
| "fadd PInf NInf = NaN"
| "fadd NInf PInf = NaN"
| "fadd PInf b = PInf"
| "fadd NInf b = NInf"
| "fadd (Fin x) b = b"

definition fsub :: "f64 \<Rightarrow> f64 \<Rightarrow> f64" where
  "fsub a b = fadd a (fneg b)"

fun fmul :: "f64 \<Rightarrow> f64 \<Rightarrow> f64" where
  "fmul (Fin x) (Fin y) = rnd (x * y)"
| "fmul NaN b = NaN"
| "fmul a NaN = NaN"
| "fmul (Fin x) b = (if x = 0 then NaN else if 0 < x then b else fneg b)"
| "fmul a (Fin y) = (if y = 0 then NaN else if 0 < y then a else fneg a)"
| "fmul a b = (if a = b then PInf else NInf)"

fun fdiv :: "f64 \<Rightarrow> f64 \<Rightarrow> f64" where
  "fdiv (Fin x) (Fin y) =
     (if y = 0 then (if x = 0 then NaN else if 0 < x then PInf else NInf) else rnd (x / y))"
| "fdiv NaN b = NaN"
| "fdiv a NaN = NaN"
| "fdiv (Fin x) b = Fin 0"
| "fdiv a (Fin y) = (if 0 \<le> y then a else fneg a)"
| "fdiv a b = NaN"

fun fsqrt :: "f64 \<Rightarrow> f64" where
  "fsqrt (Fin x) = (if x < 0 then NaN else rnd (sqrt x))"
| "fsqrt PInf = PInf"
| "fsqrt NInf = NaN"
| "fsqrt NaN = NaN"

text \<open>\<open>np.maximum\<close>, which propagates \<open>nan\<close>.\<close>

fun fmax :: "f64 \<Rightarrow> f64 \<Rightarrow> f64" where
  "fmax (Fin x) (Fin y) = Fin (max x y)"
| "fmax NaN b = NaN"
| "fmax a NaN = NaN"
| "fmax PInf b = PInf"
| "fmax a PInf = PInf"
| "fmax NInf b = b"
| "fmax a NInf = a"

text \<open>
  \<open>.min()\<close> and \<open>.max()\<close> of a non-empty column of floats without \<open>nan\<close> (the rows with a
  missing coordinate have been dropped; an infinity is not missing).
\<close>

fun f_le :: "f64 \<Rightarrow> f64 \<Rightarrow> bool" where
  "f_le (Fin x) (Fin y) = (x \<le> y)"
| "f_le NaN b = False"
| "f_le a NaN = False"
| "f_le NInf b = True"
| "f_le a PInf = True"
| "f_le a b = False"

definition f64_min :: "f64 list \<Rightarrow> f64" where
  "f64_min xs = fold (\<lambda>x m. if f_le x m then x else m) (tl xs) (hd xs)"

definition f64_max :: "f64 list \<Rightarrow> f64" where
  "f64_max xs = fold (\<lambda>x m. if f_le m x then x else m) (tl xs) (hd xs)"

text \<open>
  Python's \<open>int(x)\<close> on a float64: \<open>OverflowError\<close> for an infinity, \<open>ValueError\<close> for
  \<open>nan\<close>, truncation otherwise.
\<close>

fun int_f64 :: "f64 \<Rightarrow> py_exn + int" where
  "int_f64 (Fin x) = Inr (py_int x)"
| "int_f64 PInf = Inl OverflowError"
| "int_f64 NInf = Inl OverflowError"
| "int_f64 NaN = Inl ValueError"

text \<open>
  \<open>np.sum\<close> of a contiguous float64 array: the accumulator starts at 0 and the array
  is added by numpy's pairwise summation. Fewer than 8 elements are added one after
  the other; up to 128 elements are added in 8 lanes (lane \<open>j\<close> takes the elements
  \<open>j, 8 + j, 16 + j, ...\<close>), the lanes are combined as
  \<open>((r0 + r1) + (r2 + r3)) + ((r4 + r5) + (r6 + r7))\<close> and the elements after the last
  full group of 8 are added one after the other; a longer array is split at
  \<open>n div 2\<close> rounded down to a multiple of 8.
\<close>

definition seq_sum :: "f64 \<Rightarrow> f64 list \<Rightarrow> f64" where
  "seq_sum res a = fold (\<lambda>x r. fadd r x) a res"

definition lane :: "f64 list \<Rightarrow> nat \<Rightarrow> f64 list" where
  "lane a j = map (\<lambda>i. a ! (8 * i + j)) [0..<length a div 8]"

definition block_sum :: "f64 list \<Rightarrow> f64" where
  "block_sum a =
     (let r = map (\<lambda>j. seq_sum (a ! j) (tl (lane a j))) [0..<8];
          res = fadd (fadd (fadd (r ! 0) (r ! 1)) (fadd (r ! 2) (r ! 3)))
                     (fadd (fadd (r ! 4) (r ! 5)) (fadd (r ! 6) (r ! 7)))
      in seq_sum res (drop (length a - length a mod 8) a))"

function pairwise_sum :: "f64 list \<Rightarrow> f64" where
  "pairwise_sum a =
     (if length a < 8 then seq_sum (Fin 0) a
      else if length a \<le> 128 then block_sum a
      else fadd (pairwise_sum (take (length a div 2 - length a div 2 mod 8) a))
                (pairwise_sum (drop (length a div 2 - length a div 2 mod 8) a)))"
  by pat_completeness auto
termination
  by (relation "measure length") auto

declare pairwise_sum.simps [simp del]

definition np_sum :: "f64 list \<Rightarrow> f64" where
  "np_sum a = fadd (Fin 0) (pairwise_sum a)"

section \<open>Spatial grid (run\_enhanced\_uganda\_analysis.py, lines 107--124)\<close>

definition grid_resolution :: real where
  "grid_resolution = 5 / 1000"

definition buffer_percent :: real where
  "buffer_percent = 2 / 10"

record grid =
  grid_lat :: "real list"
  grid_lon :: "real list"

text \<open>
  The cell count of one axis: \<open>min(int((hi - lo + 2*buffer) / resolution) + 1, 400)\<close>.
  The operands are numpy floats, so a zero resolution gives \<open>inf\<close> or \<open>nan\<close> and
  \<open>int\<close> raises; an empty column has \<open>nan\<close> bounds and \<open>int\<close> raises as well.
\<close>

definition axis_cells :: "real \<Rightarrow> real \<Rightarrow> real \<Rightarrow> real \<Rightarrow> int" where
  "axis_cells res lo hi buffer = min (py_int ((hi - lo + 2 * buffer) / res) + 1) 400"

definition build_axis :: "real \<Rightarrow> real \<Rightarrow> real list \<Rightarrow> py_exn + real list" where
  "build_axis res buf xs =
     (if xs = [] then Inl ValueError
      else let lo = arr_min xs; hi = arr_max xs;
               buffer = (hi - lo) * buf
           in if res = 0 then (if hi - lo + 2 * buffer = 0 then Inl ValueError else Inl OverflowError)
              else linspace (lo - buffer) (hi + buffer) (axis_cells res lo hi buffer))"

definition build_grid :: "real \<Rightarrow> real \<Rightarrow> real list \<Rightarrow> real list \<Rightarrow> py_exn + grid" where
  "build_grid res buf lats lons =
     (case build_axis res buf lats of
        Inl e \<Rightarrow> Inl e
      | Inr glat \<Rightarrow>
          (case build_axis res buf lons of
             Inl e \<Rightarrow> Inl e
           | Inr glon \<Rightarrow> Inr \<lparr>grid_lat = glat, grid_lon = glon\<rparr>))"

text \<open>
  The same conversion on the floats of the program. The column holds the float64 of
  every coordinate of the table (a number beyond the range of float64 is read as an
  infinity), and \<open>int\<close> is applied to the float64 quotient of lines 115 and 116: it
  raises when the quotient is an infinity or \<open>nan\<close>. The bounds of an empty column are
  \<open>nan\<close>.
\<close>

definition extent_cells :: "real \<Rightarrow> real \<Rightarrow> real list \<Rightarrow> py_exn + int" where
  "extent_cells res buf xs =
     (if xs = [] then Inl ValueError
      else let col = map rnd xs; lo = f64_min col; hi = f64_max col;
               buffer = fmul (fsub hi lo) (rnd buf)
           in int_f64 (fdiv (fadd (fsub hi lo) (fmul (Fin 2) buffer)) (rnd res)))"

text \<open>
  The grid of one variable as the pipeline gets it (lines 107--124): the two
  conversions of lines 115 and 116 on the floats, which can raise, then the two axes.
  The values of the axes are computed exactly.
\<close>

definition pipeline_grid :: "real \<Rightarrow> real \<Rightarrow> real list \<Rightarrow> real list \<Rightarrow> py_exn + grid" where
  "pipeline_grid res buf lats lons =
     (case extent_cells res buf lats of
        Inl e \<Rightarrow> Inl e
      | Inr n_lat \<Rightarrow>
          (case extent_cells res buf lons of
             Inl e \<Rightarrow> Inl e
           | Inr n_lon \<Rightarrow> build_grid res buf lats lons))"

section \<open>Spatial grid of the web endpoint (app.py, lines 326--335)\<close>


section \<open>Inverse distance weighting\<close>

text \<open>
  run\_enhanced\_uganda\_analysis.py, lines 160--169: for every grid row \<open>i\<close> and column
  \<open>j\<close> the distances from \<open>(grid_lon[j], grid_lat[i])\<close> to the samples are taken, a
  distance of exactly zero is replaced by \<open>1e-10\<close>, and the cell is the weighted mean.
  \<open>coords\<close> holds \<open>(lon, lat)\<close> pairs.
\<close>

definition eps_floor :: real where
  "eps_floor = 1 / 10 ^ 10"

definition cdist1 :: "real \<times> real \<Rightarrow> (real \<times> real) list \<Rightarrow> real list" where
  "cdist1 p coords = map (\<lambda>c. sqrt ((fst p - fst c)\<^sup>2 + (snd p - snd c)\<^sup>2)) coords"

definition weighted_mean :: "real list \<Rightarrow> real list \<Rightarrow> real" where
  "weighted_mean weights vals =
     sum_list (map2 (*) weights vals) / sum_list weights"

definition idw_cell :: "(real \<times> real) list \<Rightarrow> real list \<Rightarrow> real \<Rightarrow> real \<Rightarrow> real" where
  "idw_cell coords vals glon glat =
     (let distances = map (\<lambda>d. if d = 0 then eps_floor else d) (cdist1 (glon, glat) coords);
          weights = map (\<lambda>d. 1 / d\<^sup>2) distances
      in weighted_mean weights vals)"

definition idw_surface ::
  "(real \<times> real) list \<Rightarrow> real list \<Rightarrow> real list \<Rightarrow> real list \<Rightarrow> real list list" where
  "idw_surface coords vals glon glat =
     map (\<lambda>lat. map (\<lambda>lon. idw_cell coords vals lon lat) glon) glat"

text \<open>
  app.py, lines 350--357: the same estimate with the distance floored by
  \<open>np.maximum(distances, 1e-10)\<close>; the samples are given as separate latitude and
  longitude arrays and the grid is square (\<open>resolution\<close> rows and columns).
\<close>

definition app_idw_cell :: "real list \<Rightarrow> real list \<Rightarrow> real list \<Rightarrow> real \<Rightarrow> real \<Rightarrow> real" where
  "app_idw_cell lats lons vals glat glon =
     (let distances = map2 (\<lambda>la lo. sqrt ((la - glat)\<^sup>2 + (lo - glon)\<^sup>2)) lats lons;
          floored = map (\<lambda>d. max d eps_floor) distances;
          weights = map (\<lambda>d. 1 / d\<^sup>2) floored
      in weighted_mean weights vals)"

definition app_idw_surface ::
  "real list \<Rightarrow> real list \<Rightarrow> real list \<Rightarrow> real list \<Rightarrow> real list \<Rightarrow> real list list" where
  "app_idw_surface lats lons vals grid_lats grid_lons =
     map (\<lambda>glat. map (\<lambda>glon. app_idw_cell lats lons vals glat glon) grid_lons) grid_lats"

text \<open>
  The two estimates on the floats of the program. \<open>cdist\<close> takes the root of the sum
  of the squared coordinate differences; \<open>distances ** 2\<close> is the product of the
  distance with itself; the literal \<open>1e-10\<close> is the float64 nearest to it.
\<close>

definition weighted_mean_f64 :: "f64 list \<Rightarrow> f64 list \<Rightarrow> f64" where
  "weighted_mean_f64 weights vals = fdiv (np_sum (map2 fmul weights vals)) (np_sum weights)"

definition cdist1_f64 :: "f64 \<times> f64 \<Rightarrow> (f64 \<times> f64) list \<Rightarrow> f64 list" where
  "cdist1_f64 p coords =
     map (\<lambda>c. let dx = fsub (fst p) (fst c); dy = fsub (snd p) (snd c)
              in fsqrt (fadd (fmul dx dx) (fmul dy dy))) coords"

definition idw_cell_f64 :: "(f64 \<times> f64) list \<Rightarrow> f64 list \<Rightarrow> f64 \<Rightarrow> f64 \<Rightarrow> f64" where
  "idw_cell_f64 coords vals glon glat =
     (let distances = map (\<lambda>d. if d = Fin 0 then rnd eps_floor else d)
                          (cdist1_f64 (glon, glat) coords);
          weights = map (\<lambda>d. fdiv (Fin 1) (fmul d d)) distances
      in weighted_mean_f64 weights vals)"

definition app_idw_cell_f64 :: "f64 list \<Rightarrow> f64 list \<Rightarrow> f64 list \<Rightarrow> f64 \<Rightarrow> f64 \<Rightarrow> f64" where
  "app_idw_cell_f64 lats lons vals glat glon =
     (let distances = map2 (\<lambda>la lo. let dy = fsub la glat; dx = fsub lo glon
                                    in fsqrt (fadd (fmul dy dy) (fmul dx dx))) lats lons;
          floored = map (\<lambda>d. fmax d (rnd eps_floor)) distances;
          weights = map (\<lambda>d. fdiv (Fin 1) (fmul d d)) floored
      in weighted_mean_f64 weights vals)"

section \<open>Strings\<close>

text \<open>
  \<open>str.lower()\<close> on ASCII letters, the substring test \<open>p in s\<close>, \<open>str.replace\<close>,
  \<open>str.split\<close> with a separator, and \<open>os.path.basename\<close>.
\<close>

definition lower_char :: "char \<Rightarrow> char" where
  "lower_char c =
     (case map_of (zip ''ABCDEFGHIJKLMNOPQRSTUVWXYZ'' ''abcdefghijklmnopqrstuvwxyz'') c of
        Some d \<Rightarrow> d
      | None \<Rightarrow> c)"

definition lower :: "string \<Rightarrow> string" where
  "lower s = map lower_char s"

fun starts_with :: "string \<Rightarrow> string \<Rightarrow> bool" where
  "starts_with [] s = True"
| "starts_with (p # ps) [] = False"
| "starts_with (p # ps) (c # cs) = (p = c \<and> starts_with ps cs)"

fun py_in :: "string \<Rightarrow> string \<Rightarrow> bool" where
  "py_in p [] = (p = [])"
| "py_in p (c # cs) = (starts_with p (c # cs) \<or> py_in p cs)"

text \<open>
  \<open>s.replace(old, new)\<close> for a non-empty \<open>old\<close>: occurrences are replaced from the
  left without overlap. The counter is the number of characters of a matched
  occurrence still to be skipped.
\<close>

fun replace_aux :: "string \<Rightarrow> string \<Rightarrow> nat \<Rightarrow> string \<Rightarrow> string" where
  "replace_aux old new k [] = []"
| "replace_aux old new (Suc k) (c # cs) = replace_aux old new k cs"
| "replace_aux old new 0 (c # cs) =
     (if starts_with old (c # cs) then new @ replace_aux old new (length old - 1) cs
      else c # replace_aux old new 0 cs)"

definition py_replace :: "string \<Rightarrow> string \<Rightarrow> string \<Rightarrow> string" where
  "py_replace old new s = replace_aux old new 0 s"

text \<open>\<open>s.split(sep)\<close> for a non-empty \<open>sep\<close>; the result always has at least one part.\<close>

fun split_aux :: "string \<Rightarrow> nat \<Rightarrow> string \<Rightarrow> string \<Rightarrow> string list" where
  "split_aux sep k cur [] = [rev cur]"
| "split_aux sep (Suc k) cur (c # cs) = split_aux sep k cur cs"
| "split_aux sep 0 cur (c # cs) =
     (if starts_with sep (c # cs) then rev cur # split_aux sep (length sep - 1) [] cs
      else split_aux sep 0 (c # cur) cs)"

definition py_split :: "string \<Rightarrow> string \<Rightarrow> string list" where
  "py_split sep s = split_aux sep 0 [] s"

definition py_index :: "'a list \<Rightarrow> nat \<Rightarrow> py_exn + 'a" where
  "py_index xs i = (if i < length xs then Inr (xs ! i) else Inl IndexError)"

definition basename :: "string \<Rightarrow> string" where
  "basename p = rev (takeWhile (\<lambda>c. c \<noteq> CHR ''/'') (rev p))"

section \<open>Coordinate and variable detection (app.py)\<close>

definition lat_patterns :: "string list" where
  "lat_patterns = [''lat'', ''latitude'', ''y'', ''northing'']"

definition lon_patterns :: "string list" where
  "lon_patterns = [''lon'', ''long'', ''longitude'', ''x'', ''easting'']"

definition matches_any :: "string list \<Rightarrow> string \<Rightarrow> bool" where
  "matches_any patterns col = list_ex (\<lambda>pattern. py_in pattern (lower col)) patterns"

text \<open>
  \<open>detect_coordinate_columns\<close> (lines 22--39): one pass over the columns in table
  order; the state is the pair \<open>(lat_col, lon_col)\<close>, both \<open>None\<close> at the start.
  The final test \<open>if lat_col and lon_col\<close> is Python truthiness, so an empty column
  name counts as absent.
\<close>

definition detect_step :: "string \<Rightarrow> string option \<times> string option \<Rightarrow> string option \<times> string option" where
  "detect_step col st =
     (if matches_any lat_patterns col then (Some col, snd st)
      else if matches_any lon_patterns col then (fst st, Some col)
      else st)"

definition detect_coordinate_columns :: "string list \<Rightarrow> (string \<times> string) option" where
  "detect_coordinate_columns cols =
     (case fold detect_step cols (None, None) of
        (Some lat_col, Some lon_col) \<Rightarrow>
          (if lat_col \<noteq> [] \<and> lon_col \<noteq> [] then Some (lat_col, lon_col) else None)
      | _ \<Rightarrow> None)"

text \<open>
  \<open>get_all_variables\<close> (lines 539--586), the part that decides suitability. A column
  is numeric (its cells are numbers or null) or not; \<open>count()\<close> is the number of
  non-null cells and \<open>nunique()\<close> the number of distinct non-null values. The key
  \<open>suitable_for_interpolation\<close> is only set for a numeric column with at least one
  non-null cell, and the final list reads it with the default \<open>False\<close>.
\<close>

datatype column = Numeric "real option list" | NonNumeric "string option list"

record variable_info =
  is_numeric :: bool
  total_count :: nat
  non_null_count :: nat
  unique_values :: nat
  suitable_for_interpolation :: "bool option"

definition count_non_null :: "'a option list \<Rightarrow> nat" where
  "count_non_null xs = length (List.map_filter id xs)"

definition nunique :: "'a option list \<Rightarrow> nat" where
  "nunique xs = length (remdups (List.map_filter id xs))"

fun get_variable_info :: "column \<Rightarrow> variable_info" where
  "get_variable_info (Numeric xs) =
     \<lparr>is_numeric = True, total_count = length xs, non_null_count = count_non_null xs,
      unique_values = nunique xs,
      suitable_for_interpolation =
        (if 0 < length (List.map_filter id xs)
         then Some (10 \<le> count_non_null xs \<and> 5 < nunique xs) else None)\<rparr>"
| "get_variable_info (NonNumeric xs) =
     \<lparr>is_numeric = False, total_count = length xs, non_null_count = count_non_null xs,
      unique_values = nunique xs, suitable_for_interpolation = None\<rparr>"

definition marked_suitable :: "variable_info \<Rightarrow> bool" where
  "marked_suitable v =
     (is_numeric v \<and> (case suitable_for_interpolation v of Some b \<Rightarrow> b | None \<Rightarrow> False))"

definition numeric_variables :: "(string \<times> column) list \<Rightarrow> (string \<times> variable_info) list" where
  "numeric_variables df =
     filter (\<lambda>(name, v). marked_suitable v) (map (\<lambda>(name, col). (name, get_variable_info col)) df)"

section \<open>Choice of the interpolation method\<close>

text \<open>
  Kriging and radial basis functions are computed by external libraries (pykrige,
  scipy). They are parameters of the model: a function from the samples and the grid
  axes to a surface, or \<open>None\<close> when the library raises.
\<close>

type_synonym surface = "real list list"

type_synonym estimator =
  "(real \<times> real) list \<Rightarrow> real list \<Rightarrow> real list \<Rightarrow> real list \<Rightarrow> surface option"

text \<open>
  \<open>perform_interpolation\<close> (run\_enhanced\_uganda\_analysis.py, lines 145--172). An
  exception inside the \<open>try\<close> is printed and \<open>None\<close> is returned; a method name that
  matches no branch falls off the end of the function, which returns \<open>None\<close> as well.
\<close>

definition perform_interpolation ::
  "estimator \<Rightarrow> estimator \<Rightarrow> string \<Rightarrow> real list \<Rightarrow> real list \<Rightarrow>
   (real \<times> real) list \<Rightarrow> real list \<Rightarrow> surface option" where
  "perform_interpolation kriging rbf interpolation_method glon glat coords vals =
     (if interpolation_method = ''kriging'' then kriging coords vals glon glat
      else if interpolation_method = ''rbf'' then rbf coords vals glon glat
      else if interpolation_method = ''idw'' then Some (idw_surface coords vals glon glat)
      else None)"


definition unavailable :: estimator where
  "unavailable coords vals glon glat = None"

section \<open>Raster files and the output directory\<close>

text \<open>
  A raster file as rasterio presents it: height, width, the affine transform, the
  bands (each a list of rows, row 0 first) and one description per band. A GeoTIFF
  has at least one band, so band 1 is a field of its own and the other bands follow in
  a list. The cast to 32-bit floats on writing is the identity of the model.
\<close>

type_synonym band = "real list list"

type_synonym affine = "real \<times> real \<times> real \<times> real \<times> real \<times> real"

record raster =
  r_height :: nat
  r_width :: nat
  r_transform :: affine
  r_band1 :: band
  r_more_bands :: "band list"
  r_descriptions :: "string list"

definition r_bands :: "raster \<Rightarrow> band list" where
  "r_bands r = r_band1 r # r_more_bands r"

text \<open>
  \<open>rasterio.transform.from_bounds(west, south, east, north, width, height)\<close> is the
  translation to \<open>(west, north)\<close> followed by the scaling by
  \<open>((east - west) / width, (south - north) / height)\<close>; the transform \<open>(a, b, c, d, e, f)\<close>
  sends the upper-left corner of pixel \<open>(row, col)\<close> to
  \<open>(a * col + b * row + c, d * col + e * row + f)\<close>.
\<close>

definition from_bounds :: "real \<Rightarrow> real \<Rightarrow> real \<Rightarrow> real \<Rightarrow> nat \<Rightarrow> nat \<Rightarrow> affine" where
  "from_bounds west south east north width height =
     ((east - west) / real width, 0, west, 0, (south - north) / real height, north)"

fun pixel_xy :: "affine \<Rightarrow> nat \<Rightarrow> nat \<Rightarrow> real \<times> real" where
  "pixel_xy (a, b, c, d, e, f) row col =
     (a * real col + b * real row + c, d * real col + e * real row + f)"

text \<open>
  The directory is an association list from paths to raster files; the first entry of
  a path is the current file, so writing puts the new file in front.
\<close>

type_synonym fs = "(string \<times> raster) list"

definition fs_read :: "fs \<Rightarrow> string \<Rightarrow> py_exn + raster" where
  "fs_read files p = (case map_of files p of None \<Rightarrow> Inl FileNotFoundError | Some r \<Rightarrow> Inr r)"

definition fs_write :: "fs \<Rightarrow> string \<Rightarrow> raster \<Rightarrow> fs" where
  "fs_write files p r = (p, r) # files"

text \<open>
  \<open>src.read(1)\<close>, \<open>dst.write(data, i)\<close> and \<open>dst.set_band_description(i, d)\<close>; bands
  count from 1, and a band index outside the file's bands raises \<open>IndexError\<close>. The
  band written is the array as given: what the library does with an array whose shape
  is not the shape of the file is not modelled.
\<close>

definition read_band1 :: "raster \<Rightarrow> band" where
  "read_band1 src = r_band1 src"

definition write_band :: "raster \<Rightarrow> band \<Rightarrow> nat \<Rightarrow> py_exn + raster" where
  "write_band dst data i =
     (if i = 1 then Inr (dst\<lparr>r_band1 := data\<rparr>)
      else if 2 \<le> i \<and> i \<le> Suc (length (r_more_bands dst))
      then Inr (dst\<lparr>r_more_bands := (r_more_bands dst)[i - 2 := data]\<rparr>)
      else Inl IndexError)"

definition set_band_description :: "raster \<Rightarrow> nat \<Rightarrow> string \<Rightarrow> raster" where
  "set_band_description dst i d = dst\<lparr>r_descriptions := (r_descriptions dst)[i - 1 := d]\<rparr>"

definition output_dir :: string where
  "output_dir = ''/app/outputs/uganda_enhanced_analysis''"

definition out_path :: "string \<Rightarrow> string" where
  "out_path name = output_dir @ ''/'' @ name"

definition ends_with :: "string \<Rightarrow> string \<Rightarrow> bool" where
  "ends_with suffix s = starts_with (rev suffix) (rev s)"

text \<open>
  \<open>sorted(glob(os.path.join(output_dir, 'uganda_*_daily_*.tif')))\<close>: the files of the
  output directory whose name is \<open>uganda_\<close>, anything, \<open>_daily_\<close>, anything, \<open>.tif\<close>, each
  once, in ascending order of their paths.
\<close>

definition daily_name :: "string \<Rightarrow> bool" where
  "daily_name name =
     (starts_with ''uganda_'' name \<and>
      (let rest = drop 7 name
       in ends_with ''.tif'' rest \<and> py_in ''_daily_'' (take (length rest - 4) rest)))"

definition glob_daily :: "fs \<Rightarrow> string list" where
  "glob_daily files =
     sort (remdups (filter (\<lambda>p. p = out_path (basename p) \<and> daily_name (basename p))
                           (map fst files)))"

section \<open>The enhanced pipeline (run\_enhanced\_uganda\_analysis.py)\<close>

text \<open>
  The input table. A row gives the country (a missing cell is a string other than
  \<open>Uganda\<close>), the coordinates (\<open>None\<close> for a missing cell), the day parsed from the date
  column (\<open>None\<close> when it cannot be parsed) and the value of every variable column
  (\<open>None\<close> for a missing cell). A day is written as \<open>str(date)\<close> writes it,
  \<open>YYYY-MM-DD\<close>; on this fixed-width form the order of the dates is the order of the
  strings. Writing files, plotting and printing do not fail in the model. The
  coordinate columns are numeric; a coordinate is the number written in the table, and
  the program holds its float64, \<open>rnd\<close> of it.
\<close>

record csv_row =
  c_country :: string
  c_lat :: "real option"
  c_lon :: "real option"
  c_date :: "string option"
  c_vals :: "string \<Rightarrow> real option"

record csv_table =
  t_columns :: "string list"
  t_rows :: "csv_row list"

record sample =
  s_lat :: real
  s_lon :: real
  s_date :: string
  s_vals :: "string \<Rightarrow> real option"

record config =
  max_days_per_variable :: nat
  interpolation_method :: string
  cfg_grid_resolution :: real
  cfg_buffer_percent :: real

definition target_variables :: "string list" where
  "target_variables =
     [''NDVI'', ''pm25'', ''no2'', ''WRND'', ''EH'', ''EM'', ''T2M'', ''RH'', ''LST'', ''ET'',
      ''TP'', ''BLH'']"

definition default_config :: config where
  "default_config =
     \<lparr>max_days_per_variable = 30, interpolation_method = ''kriging'',
      cfg_grid_resolution = grid_resolution, cfg_buffer_percent = buffer_percent\<rparr>"

text \<open>
  Step 1 (lines 52--83). \<open>None\<close> as the table stands for \<open>read_csv\<close> raising. Selecting
  a column that the table does not have raises \<open>KeyError\<close>. Every exception of this
  step is caught by the \<open>except\<close> of line 81.
\<close>

definition clean_row :: "csv_row \<Rightarrow> sample option" where
  "clean_row r =
     (case (c_lat r, c_lon r, c_date r) of
        (Some la, Some lo, Some d) \<Rightarrow>
          Some \<lparr>s_lat = la, s_lon = lo, s_date = d, s_vals = c_vals r\<rparr>
      | _ \<Rightarrow> None)"

definition load_data :: "csv_table option \<Rightarrow> py_exn + string list \<times> sample list" where
  "load_data csv =
     (case csv of
        None \<Rightarrow> Inl FileNotFoundError
      | Some df \<Rightarrow>
          if ''country'' \<notin> set (t_columns df) then Inl KeyError
          else let uganda_df = filter (\<lambda>r. c_country r = ''Uganda'') (t_rows df);
                   available_vars = filter (\<lambda>var. var \<in> set (t_columns df)) target_variables
               in if \<not> list_all (\<lambda>col. col \<in> set (t_columns df))
                         [''id'', ''country'', ''lat'', ''lon'', ''date'']
                  then Inl KeyError
                  else Inr (available_vars, List.map_filter clean_row uganda_df))"

record interpolation_log =
  variable :: string
  successful_interpolations :: nat
  failed_interpolations :: nat
  daily_files :: "string list"

record results_summary =
  total_records :: nat
  variables_processed :: "string list"
  processing_results :: "(string \<times> interpolation_log) list"

record day_state =
  ds_log :: interpolation_log
  ds_files :: "string list"
  ds_fs :: fs

record run_state =
  run_fs :: fs
  run_summary :: results_summary

text \<open>The raster of one day (lines 197--216).\<close>

definition daily_file_name :: "string \<Rightarrow> string \<Rightarrow> string" where
  "daily_file_name var date_str = out_path (''uganda_'' @ var @ ''_daily_'' @ date_str @ ''.tif'')"

definition encode_daily :: "grid \<Rightarrow> surface \<Rightarrow> string \<Rightarrow> raster" where
  "encode_daily g z description =
     \<lparr>r_height = length (grid_lat g), r_width = length (grid_lon g),
      r_transform =
        from_bounds (arr_min (grid_lon g)) (arr_min (grid_lat g))
                    (arr_max (grid_lon g)) (arr_max (grid_lat g))
                    (length (grid_lon g)) (length (grid_lat g)),
      r_band1 = z, r_more_bands = [], r_descriptions = [description]\<rparr>"

definition fail_day :: "day_state \<Rightarrow> day_state" where
  "fail_day st =
     st\<lparr>ds_log := (ds_log st)\<lparr>failed_interpolations := failed_interpolations (ds_log st) + 1\<rparr>\<rparr>"

text \<open>
  One day of one variable (the body of the loop of lines 175--224). Everything the
  body does is inside its \<open>try\<close>: an exception counts as one failed interpolation.
  \<open>.min()\<close> of an empty grid axis raises, which is such an exception.
\<close>

definition process_day ::
  "config \<Rightarrow> estimator \<Rightarrow> estimator \<Rightarrow> string \<Rightarrow> grid \<Rightarrow> sample list \<Rightarrow> string \<Rightarrow>
   day_state \<Rightarrow> day_state" where
  "process_day cfg kriging rbf var g valid_data date st =
     (let daily_data = filter (\<lambda>s. s_date s = date) valid_data
      in if length daily_data < 5 then fail_day st
         else let coords = map (\<lambda>s. (s_lon s, s_lat s)) daily_data;
                  vals = List.map_filter (\<lambda>s. s_vals s var) daily_data
              in case perform_interpolation kriging rbf (interpolation_method cfg)
                        (grid_lon g) (grid_lat g) coords vals of
                   None \<Rightarrow> fail_day st
                 | Some z \<Rightarrow>
                     if grid_lon g = [] \<or> grid_lat g = [] then fail_day st
                     else let output_file = daily_file_name var date
                          in st\<lparr>ds_fs := fs_write (ds_fs st) output_file
                                           (encode_daily g z (''Uganda '' @ var @ '' - '' @ date)),
                                ds_files := ds_files st @ [output_file],
                                ds_log := (ds_log st)
                                  \<lparr>successful_interpolations :=
                                     successful_interpolations (ds_log st) + 1,
                                   daily_files := daily_files (ds_log st) @ [output_file]\<rparr>\<rparr>)"

text \<open>
  Writing the bands of a stack (lines 244--251 and 332--347): the files are read in
  list order and the data of the file at position \<open>i\<close> (from 1) is written as band \<open>i\<close>.
\<close>

fun write_bands ::
  "fs \<Rightarrow> (string \<Rightarrow> string) \<Rightarrow> nat \<Rightarrow> string list \<Rightarrow> raster \<Rightarrow> py_exn + raster" where
  "write_bands files describe i [] dst = Inr dst"
| "write_bands files describe i (raster_file # rest) dst =
     (case fs_read files raster_file of
        Inl e \<Rightarrow> Inl e
      | Inr src \<Rightarrow>
          (case write_band dst (read_band1 src) i of
             Inl e \<Rightarrow> Inl e
           | Inr dst' \<Rightarrow>
               write_bands files describe (Suc i) rest
                 (set_band_description dst' i (describe raster_file))))"

text \<open>
  A stack: the profile of the first file with \<open>count\<close> set to the number of files. The
  output file is opened for writing, which creates it, before the inputs are read.
\<close>

definition create_stack ::
  "fs \<Rightarrow> (string \<Rightarrow> string) \<Rightarrow> string \<Rightarrow> string list \<Rightarrow> py_exn + fs" where
  "create_stack files describe stack_file raster_files =
     (case raster_files of
        [] \<Rightarrow> Inl IndexError
      | first # _ \<Rightarrow>
          (case fs_read files first of
             Inl e \<Rightarrow> Inl e
           | Inr src \<Rightarrow>
               let dst = \<lparr>r_height = r_height src, r_width = r_width src,
                          r_transform = r_transform src,
                          r_band1 = [],
                          r_more_bands = replicate (length raster_files - 1) [],
                          r_descriptions = replicate (length raster_files) []\<rparr>;
                   opened = fs_write files stack_file dst
               in (case write_bands opened describe 1 raster_files dst of
                     Inl e \<Rightarrow> Inl e
                   | Inr dst' \<Rightarrow> Inr (fs_write opened stack_file dst'))))"

definition date_of_file :: "string \<Rightarrow> string" where
  "date_of_file raster_file =
     py_replace ''.tif'' [] (case rev (py_split ''_daily_'' (basename raster_file)) of
                                [] \<Rightarrow> [] | part # _ \<Rightarrow> part)"

definition variable_geostack :: "string \<Rightarrow> string list \<Rightarrow> fs \<Rightarrow> py_exn + fs" where
  "variable_geostack var daily_raster_files files =
     (if daily_raster_files = [] then Inr files
      else create_stack files (\<lambda>raster_file. var @ '' - '' @ date_of_file raster_file)
             (out_path (''uganda_'' @ var @ ''_geostack.tif'')) daily_raster_files)"

text \<open>
  One variable (the body of the loop of lines 95--312). Only the day loop has a
  \<open>try\<close>; an exception anywhere else leaves the function, and the \<open>int(...)\<close> of lines
  115 and 116 is outside every \<open>try\<close>. The plots of step 4 and the printed lines change
  nothing that is modelled.
\<close>

definition process_variable ::
  "config \<Rightarrow> estimator \<Rightarrow> estimator \<Rightarrow> sample list \<Rightarrow> string \<Rightarrow> run_state \<Rightarrow>
   py_exn + run_state" where
  "process_variable cfg kriging rbf uganda_clean var st =
     (let valid_data = filter (\<lambda>s. s_vals s var \<noteq> None) uganda_clean
      in if length valid_data < 10 then Inr st
         else case pipeline_grid (cfg_grid_resolution cfg) (cfg_buffer_percent cfg)
                     (map s_lat valid_data) (map s_lon valid_data) of
                Inl e \<Rightarrow> Inl e
              | Inr g \<Rightarrow>
                  let dates = sort (remdups (map s_date valid_data));
                      selected_dates = take (max_days_per_variable cfg) dates;
                      ds = fold (process_day cfg kriging rbf var g valid_data) selected_dates
                             \<lparr>ds_log = \<lparr>variable = var, successful_interpolations = 0,
                                        failed_interpolations = 0, daily_files = []\<rparr>,
                              ds_files = [], ds_fs = run_fs st\<rparr>
                  in case variable_geostack var (ds_files ds) (ds_fs ds) of
                       Inl e \<Rightarrow> Inl e
                     | Inr files' \<Rightarrow>
                         Inr (st\<lparr>run_fs := files',
                                 run_summary := (run_summary st)
                                   \<lparr>variables_processed :=
                                      variables_processed (run_summary st) @ [var],
                                    processing_results :=
                                      processing_results (run_summary st) @ [(var, ds_log ds)]\<rparr>\<rparr>))"

fun fold_exn :: "('a \<Rightarrow> 's \<Rightarrow> py_exn + 's) \<Rightarrow> 'a list \<Rightarrow> 's \<Rightarrow> py_exn + 's" where
  "fold_exn f [] st = Inr st"
| "fold_exn f (x # xs) st = (case f x st of Inl e \<Rightarrow> Inl e | Inr st' \<Rightarrow> fold_exn f xs st')"

text \<open>Step 5 (lines 317--372): the stack of all daily rasters and its catalog.\<close>

record band_entry =
  band_number :: nat
  filename :: string
  entry_variable :: string
  entry_date :: string

record catalog =
  multi_geostack_file :: string
  total_bands :: nat
  catalog_variables :: "string set"
  band_catalog :: "band_entry list"

definition multi_band_description :: "string \<Rightarrow> string" where
  "multi_band_description raster_file =
     (let name = basename raster_file;
          parts = py_split ''_'' (py_replace ''.tif'' []
                    (py_replace ''_daily_'' ''_'' (py_replace ''uganda_'' [] name)))
      in if 2 \<le> length parts then parts ! 0 @ '' - '' @ parts ! 1 else name)"

definition catalog_entry :: "nat \<times> string \<Rightarrow> py_exn + band_entry" where
  "catalog_entry p =
     (case py_index (py_split ''_'' (basename (snd p))) 1 of
        Inl e \<Rightarrow> Inl e
      | Inr v \<Rightarrow>
          (case py_index (py_split ''_daily_'' (basename (snd p))) 1 of
             Inl e \<Rightarrow> Inl e
           | Inr d \<Rightarrow>
               Inr \<lparr>band_number = fst p + 1, filename = basename (snd p),
                    entry_variable = v, entry_date = py_replace ''.tif'' [] d\<rparr>))"

fun map_exn :: "('a \<Rightarrow> py_exn + 'b) \<Rightarrow> 'a list \<Rightarrow> py_exn + 'b list" where
  "map_exn f [] = Inr []"
| "map_exn f (x # xs) =
     (case f x of
        Inl e \<Rightarrow> Inl e
      | Inr y \<Rightarrow> (case map_exn f xs of Inl e \<Rightarrow> Inl e | Inr ys \<Rightarrow> Inr (y # ys)))"

definition multi_geostack_path :: string where
  "multi_geostack_path = out_path ''uganda_all_variables_geostack.tif''"

definition make_catalog :: "string list \<Rightarrow> py_exn + catalog" where
  "make_catalog all_daily_rasters =
     (case map_exn (\<lambda>f. py_index (py_split ''_'' (basename f)) 1) all_daily_rasters of
        Inl e \<Rightarrow> Inl e
      | Inr vars \<Rightarrow>
          (case map_exn catalog_entry (enumerate 0 all_daily_rasters) of
             Inl e \<Rightarrow> Inl e
           | Inr entries \<Rightarrow>
               Inr \<lparr>multi_geostack_file = multi_geostack_path,
                    total_bands = length all_daily_rasters,
                    catalog_variables = set vars, band_catalog = entries\<rparr>))"

text \<open>
  The assembler proper: from the ordered list of raster files to the directory with the
  stack written, and the catalog.
\<close>

definition assemble :: "fs \<Rightarrow> string list \<Rightarrow> py_exn + fs \<times> catalog" where
  "assemble files all_daily_rasters =
     (case create_stack files multi_band_description multi_geostack_path all_daily_rasters of
        Inl e \<Rightarrow> Inl e
      | Inr files' \<Rightarrow>
          (case make_catalog all_daily_rasters of
             Inl e \<Rightarrow> Inl e
           | Inr cat \<Rightarrow> Inr (files', cat)))"

definition multi_geostack :: "fs \<Rightarrow> py_exn + fs \<times> catalog option" where
  "multi_geostack files =
     (let all_daily_rasters = glob_daily files
      in if all_daily_rasters = [] then Inr (files, None)
         else case assemble files all_daily_rasters of
                Inl e \<Rightarrow> Inl e
              | Inr (files', cat) \<Rightarrow> Inr (files', Some cat))"

text \<open>
  The whole function. Its result is the returned Boolean with the directory, the run
  report and the catalog (if one was written), or the exception that leaves it. The
  first two arguments stand for the two libraries, the third for the content of the
  output directory at the start.
\<close>

record run_output =
  returned :: bool
  out_fs :: fs
  out_summary :: "results_summary option"
  out_catalog :: "catalog option"

definition run_enhanced_uganda_analysis ::
  "estimator \<Rightarrow> estimator \<Rightarrow> fs \<Rightarrow> csv_table option \<Rightarrow> py_exn + run_output" where
  "run_enhanced_uganda_analysis kriging rbf files0 csv =
     (case load_data csv of
        Inl e \<Rightarrow>
          Inr \<lparr>returned = False, out_fs = files0, out_summary = None, out_catalog = None\<rparr>
      | Inr (available_vars, uganda_clean) \<Rightarrow>
          (case fold_exn (process_variable default_config kriging rbf uganda_clean) available_vars
                  \<lparr>run_fs = files0,
                   run_summary = \<lparr>total_records = length uganda_clean,
                                  variables_processed = [], processing_results = []\<rparr>\<rparr> of
             Inl e \<Rightarrow> Inl e
           | Inr st \<Rightarrow>
               (case multi_geostack (run_fs st) of
                  Inl e \<Rightarrow> Inl e
                | Inr (files', cat) \<Rightarrow>
                    Inr \<lparr>returned = True, out_fs = files', out_summary = Some (run_summary st),
                         out_catalog = cat\<rparr>)))"

definition total_failed :: "results_summary \<Rightarrow> nat" where
  "total_failed summary =
     sum_list (map (\<lambda>r. failed_interpolations (snd r)) (processing_results summary))"


section \<open>Example inputs\<close>

text \<open>
  Small inputs on which the functions above are evaluated further down: tables with
  the columns of the Uganda file and one variable, samples at two sites, samples half
  of which lie at latitude \<open>2 ^ 1020\<close>, five sites at whole distances from the origin,
  and a directory with two one-pixel rasters.
\<close>

definition uganda_row :: "real \<Rightarrow> real \<Rightarrow> string \<Rightarrow> real \<Rightarrow> csv_row" where
  "uganda_row la lo d v =
     \<lparr>c_country = ''Uganda'', c_lat = Some la, c_lon = Some lo, c_date = Some d,
      c_vals = map_of [(''pm25'', v)]\<rparr>"

definition pm25_sample :: "real \<Rightarrow> real \<Rightarrow> string \<Rightarrow> real \<Rightarrow> sample" where
  "pm25_sample la lo d v =
     \<lparr>s_lat = la, s_lon = lo, s_date = d, s_vals = map_of [(''pm25'', v)]\<rparr>"

definition three_points :: csv_table where
  "three_points =
     \<lparr>t_columns = [''id'', ''country'', ''lat'', ''lon'', ''date'', ''pm25''],
      t_rows = [uganda_row 0 30 ''2020-01-01'' 1, uganda_row 1 31 ''2020-01-01'' 2,
                uganda_row 2 32 ''2020-01-01'' 3]\<rparr>"


definition two_sites :: "sample list" where
  "two_sites =
     [pm25_sample 0 30 ''2020-01-01'' 1, pm25_sample 0 30 ''2020-01-01'' 1,
      pm25_sample 0 30 ''2020-01-01'' 1, pm25_sample 0 30 ''2020-01-01'' 1,
      pm25_sample 0 30 ''2020-01-01'' 1,
      pm25_sample (5 / 1000) (30005 / 1000) ''2020-01-01'' 3,
      pm25_sample (5 / 1000) (30005 / 1000) ''2020-01-01'' 3,
      pm25_sample (5 / 1000) (30005 / 1000) ''2020-01-01'' 3,
      pm25_sample (5 / 1000) (30005 / 1000) ''2020-01-01'' 3,
      pm25_sample (5 / 1000) (30005 / 1000) ''2020-01-01'' 3]"

definition three_samples :: "sample list" where
  "three_samples =
     [pm25_sample 0 30 ''2020-01-01'' 1, pm25_sample 1 31 ''2020-01-01'' 2,
      pm25_sample 2 32 ''2020-01-01'' 3]"

definition idw_config :: config where
  "idw_config = default_config\<lparr>interpolation_method := ''idw''\<rparr>"

definition empty_state :: run_state where
  "empty_state = \<lparr>run_fs = [], run_summary = \<lparr>total_records = 10, variables_processed = [], processing_results = []\<rparr>\<rparr>"

definition two_sites_grid :: grid where
  "two_sites_grid = \<lparr>grid_lat = [- (1 / 1000), 3 / 500], grid_lon = [29999 / 1000, 15003 / 500]\<rparr>"

definition two_sites_raster :: raster where
  "two_sites_raster =
     \<lparr>r_height = 2, r_width = 2,
      r_transform = (7 / 2000, 0, 29999 / 1000, 0, - (7 / 2000), 3 / 500),
      r_band1 = [[39 / 37, 2], [2, 109 / 37]], r_more_bands = [],
      r_descriptions = [''Uganda pm25 - 2020-01-01'']\<rparr>"

definition daily_start :: day_state where
  "daily_start =
     \<lparr>ds_log = \<lparr>variable = ''pm25'', successful_interpolations = 0,
                failed_interpolations = 0, daily_files = []\<rparr>,
      ds_files = [], ds_fs = []\<rparr>"

definition one_pixel :: "real \<Rightarrow> raster" where
  "one_pixel v =
     \<lparr>r_height = 1, r_width = 1, r_transform = (1, 0, 30, 0, - 1, 1),
      r_band1 = [[v]], r_more_bands = [], r_descriptions = ['''']\<rparr>"

definition day1_file :: string where
  "day1_file = daily_file_name ''pm25'' ''2020-01-01''"

definition day2_file :: string where
  "day2_file = daily_file_name ''pm25'' ''2020-01-02''"

definition two_days :: fs where
  "two_days = [(day1_file, one_pixel 1), (day2_file, one_pixel 2)]"



definition triple_sites :: "(f64 \<times> f64) list" where
  "triple_sites = [(Fin 3, Fin 4), (Fin 6, Fin 8), (Fin 5, Fin 12), (Fin 8, Fin 15), (Fin 7, Fin 24)]"

section \<open>Properties of the floats\<close>

text \<open>
  Powers of two, the binary exponent, and rounding: a number between two powers of two
  is rounded to a float between them, a number of magnitude \<open>2 ^ 1024\<close> or more to an
  infinity, and \<open>rnd\<close> can be evaluated from the exponent of its argument.
\<close>

lemma pow2_powi: "pow2 e = 2 powi e"
  by (simp add: pow2_def power_int_def field_simps)

lemma pow2_pos [simp]: "0 < pow2 e"
  by (simp add: pow2_powi)

lemma pow2_ne0 [simp]: "pow2 e \<noteq> 0"
  using pow2_pos[of e] by (simp del: pow2_pos)

lemma pow2_nonneg [simp]: "0 \<le> pow2 e"
  using pow2_pos[of e] by (simp del: pow2_pos)

lemma pow2_not_le0 [simp]: "\<not> pow2 e \<le> 0"
  using pow2_pos[of e] by (simp add: not_le del: pow2_pos)

lemma pow2_not_less0 [simp]: "\<not> pow2 e < 0"
  using pow2_nonneg[of e] by (simp add: not_less del: pow2_nonneg)

lemma abs_pow2 [simp]: "\<bar>pow2 e\<bar> = pow2 e"
  by simp

lemma pow2_add: "pow2 (a + b) = pow2 a * pow2 b"
  by (simp add: pow2_powi power_int_add)


lemma pow2_less_iff [simp]: "pow2 a < pow2 b \<longleftrightarrow> a < b"
proof
  assume "pow2 a < pow2 b"
  show "a < b"
  proof (rule ccontr)
    assume "\<not> a < b"
    then have "b \<le> a" by simp
    then have "pow2 b \<le> pow2 a"
      unfolding pow2_powi by (intro power_int_increasing) simp_all
    then show False using \<open>pow2 a < pow2 b\<close> by simp
  qed
next
  assume "a < b"
  then show "pow2 a < pow2 b"
    unfolding pow2_powi by (intro power_int_strict_increasing) simp_all
qed

lemma pow2_le_iff [simp]: "pow2 a \<le> pow2 b \<longleftrightarrow> a \<le> b"
  using pow2_less_iff[of b a] by (simp add: not_less[symmetric] del: pow2_less_iff)

lemma pow2_0 [simp]: "pow2 0 = 1"
  by (simp add: pow2_def)

lemma pow2_nat: "0 \<le> e \<Longrightarrow> pow2 e = of_int (2 ^ nat e)"
  by (simp add: pow2_def)

lemma pow2_1 [simp]: "pow2 1 = 2"
  by (simp add: pow2_def)


lemma find_exp_bounds: "k \<le> find_exp n k x \<and> find_exp n k x \<le> k + int n"
proof (induction n arbitrary: k)
  case 0
  then show ?case by simp
next
  case (Suc n)
  have "k + 1 \<le> find_exp n (k + 1) x \<and> find_exp n (k + 1) x \<le> k + 1 + int n" by (rule Suc.IH)
  then show ?case by auto
qed

lemma find_exp_lower: "pow2 k \<le> x \<Longrightarrow> pow2 (find_exp n k x) \<le> x"
  by (induction n arbitrary: k) auto

lemma find_exp_gt: "k < find_exp n k x \<Longrightarrow> pow2 (find_exp n k x) \<le> x"
proof (induction n arbitrary: k)
  case 0
  then show ?case by simp
next
  case (Suc n)
  show ?case
  proof (cases "pow2 (k + 1) \<le> x")
    case True
    then have "pow2 (find_exp n (k + 1) x) \<le> x" by (rule find_exp_lower)
    then show ?thesis using True by simp
  next
    case False
    then show ?thesis using Suc.prems by simp
  qed
qed

lemma find_exp_upper:
  "find_exp n k x < k + int n \<Longrightarrow> x < pow2 (find_exp n k x + 1)"
proof (induction n arbitrary: k)
  case 0
  then show ?case by simp
next
  case (Suc n)
  show ?case
  proof (cases "pow2 (k + 1) \<le> x")
    case True
    then have "find_exp n (k + 1) x < (k + 1) + int n" using Suc.prems by simp
    then show ?thesis using True Suc.IH by simp
  next
    case False
    then show ?thesis by simp
  qed
qed

lemma ilog2_bounds: "- 1100 \<le> ilog2 x \<and> ilog2 x \<le> 1100"
  using find_exp_bounds[of "- 1100" 2200 x] by (simp add: ilog2_def)

lemma ilog2_lower: "- 1100 < ilog2 x \<Longrightarrow> pow2 (ilog2 x) \<le> x"
  unfolding ilog2_def by (rule find_exp_gt)


lemma ilog2_upper: "ilog2 x < 1100 \<Longrightarrow> x < pow2 (ilog2 x + 1)"
  unfolding ilog2_def using find_exp_upper[of 2200 "- 1100" x] by simp

lemma ilog2_le: 
  assumes "x \<le> pow2 b" "- 1100 \<le> b"
  shows "ilog2 x \<le> b"
proof (rule ccontr)
  assume "\<not> ilog2 x \<le> b"
  then have gt: "b < ilog2 x" by simp
  then have "pow2 (ilog2 x) \<le> x" using assms(2) by (intro ilog2_lower) simp
  then have "pow2 (ilog2 x) \<le> pow2 b" using assms(1) by (rule order_trans)
  then show False using gt by simp
qed

lemma ilog2_ge:
  assumes "pow2 a \<le> x" "a \<le> 1100"
  shows "a \<le> ilog2 x"
proof (rule ccontr)
  assume "\<not> a \<le> ilog2 x"
  then have lt: "ilog2 x < a" by simp
  then have "x < pow2 (ilog2 x + 1)" using assms(2) by (intro ilog2_upper) simp
  moreover have "pow2 (ilog2 x + 1) \<le> pow2 a" using lt by simp
  ultimately show False using assms(1) by simp
qed

lemma ilog2_eq:
  assumes "pow2 j \<le> x" "x < pow2 (j + 1)" "- 1100 \<le> j" "j < 1100"
  shows "ilog2 x = j"
proof -
  have 1: "j \<le> ilog2 x" using assms(1,4) by (intro ilog2_ge) simp_all
  have "ilog2 x \<le> j"
  proof (rule ccontr)
    assume "\<not> ilog2 x \<le> j"
    then have gt: "j + 1 \<le> ilog2 x" by simp
    then have "pow2 (ilog2 x) \<le> x" using assms(3) by (intro ilog2_lower) simp
    moreover have "pow2 (j + 1) \<le> pow2 (ilog2 x)" using gt by simp
    ultimately show False using assms(2) by linarith
  qed
  then show ?thesis using 1 by simp
qed

lemma round_even_cases: "round_even x = \<lfloor>x\<rfloor> \<or> round_even x = \<lfloor>x\<rfloor> + 1"
  by (simp add: round_even_def Let_def)

lemma round_even_int [simp]: "round_even (of_int n) = n"
  by (simp add: round_even_def Let_def)

lemma round_even_ge: "of_int n \<le> x \<Longrightarrow> n \<le> round_even x"
proof -
  assume "of_int n \<le> x"
  then have "n \<le> \<lfloor>x\<rfloor>" by (simp add: le_floor_iff)
  then show ?thesis using round_even_cases[of x] by auto
qed

lemma round_even_le: "x \<le> of_int n \<Longrightarrow> round_even x \<le> n"
proof (cases "x = of_int n")
  case True
  then show ?thesis by simp
next
  case False
  assume "x \<le> of_int n"
  then have "x < of_int n" using False by simp
  then have "\<lfloor>x\<rfloor> < n" by (simp add: floor_less_iff)
  then show ?thesis using round_even_cases[of x] by auto
qed

lemma round_even_err: "\<bar>of_int (round_even x) - x\<bar> \<le> 1 / 2"
proof -
  have "of_int \<lfloor>x\<rfloor> \<le> x" "x < of_int \<lfloor>x\<rfloor> + 1" by linarith+
  then show ?thesis by (auto simp: round_even_def Let_def)
qed

lemma pow2_split: "e \<le> b \<Longrightarrow> pow2 b = of_int (2 ^ nat (b - e)) * pow2 e"
proof -
  assume "e \<le> b"
  have "pow2 b = pow2 ((b - e) + e)" by simp
  also have "\<dots> = pow2 (b - e) * pow2 e" by (rule pow2_add)
  also have "pow2 (b - e) = of_int (2 ^ nat (b - e))" using \<open>e \<le> b\<close> by (intro pow2_nat) simp
  finally show ?thesis .
qed

lemma rnd_abs_le:
  assumes "\<bar>x\<bar> \<le> pow2 b" "- 1074 \<le> b" "b \<le> 1023"
  shows "\<exists>y. rnd x = Fin y \<and> \<bar>y\<bar> \<le> pow2 b"
proof (cases "x = 0")
  case True
  then show ?thesis using pow2_pos[of b] by (simp add: rnd_def less_imp_le)
next
  case False
  define e where "e = max (- 1074) (ilog2 \<bar>x\<bar> - 52)"
  define z where "z = x / pow2 e"
  define N :: int where "N = 2 ^ nat (b - e)"
  define y where "y = of_int (round_even z) * pow2 e"
  have "ilog2 \<bar>x\<bar> \<le> b" using assms(1,2) by (intro ilog2_le) simp_all
  then have eb: "e \<le> b" using assms(2) by (simp add: e_def)
  have pb: "pow2 b = of_int N * pow2 e" unfolding N_def using eb by (rule pow2_split)
  have "\<bar>z\<bar> = \<bar>x\<bar> / pow2 e" by (simp add: z_def)
  also have "\<dots> \<le> pow2 b / pow2 e" using assms(1) by (simp add: divide_right_mono)
  also have "\<dots> = of_int N" by (simp add: pb)
  finally have zN: "\<bar>z\<bar> \<le> of_int N" .
  then have "z \<le> of_int N" "of_int (- N) \<le> z" by simp_all
  then have "round_even z \<le> N" "- N \<le> round_even z"
    using round_even_le[of z N] round_even_ge[of "- N" z] by simp_all
  then have "\<bar>round_even z\<bar> \<le> N" by simp
  then have "\<bar>of_int (round_even z) :: real\<bar> \<le> of_int N"
    by (metis of_int_abs of_int_le_iff)
  then have "\<bar>y\<bar> \<le> of_int N * pow2 e"
    by (simp add: y_def abs_mult mult_right_mono)
  then have yb: "\<bar>y\<bar> \<le> pow2 b" by (simp add: pb)
  have "pow2 b < pow2 1024" using assms(3) by simp
  then have "\<not> pow2 1024 \<le> \<bar>y\<bar>" using yb by linarith
  then have "rnd x = Fin y"
    using False unfolding rnd_def Let_def e_def[symmetric] z_def[symmetric] y_def[symmetric]
    by simp
  then show ?thesis using yb by blast
qed




lemma rnd_0 [simp]: "rnd 0 = Fin 0"
  by (simp add: rnd_def)

lemma rnd_eval:
  assumes "pow2 j \<le> \<bar>x\<bar>" "\<bar>x\<bar> < pow2 (j + 1)" "- 1022 \<le> j" "j \<le> 1022"
    and "round_even (x / pow2 (j - 52)) = m" "y = of_int m * pow2 (j - 52)"
  shows "rnd x = Fin y"
proof -
  have x0: "x \<noteq> 0" using assms(1) pow2_pos[of j] by auto
  have j: "ilog2 \<bar>x\<bar> = j" using assms(1-4) by (intro ilog2_eq) simp_all
  have e: "max (- 1074) (ilog2 \<bar>x\<bar> - 52) = j - 52" using assms(3) by (simp add: j)
  have "\<bar>x\<bar> \<le> pow2 (j + 1)" using assms(2) by simp
  then obtain y' where y': "rnd x = Fin y'"
    using rnd_abs_le[of x "j + 1"] assms(3,4) by auto
  have "rnd x = (if pow2 1024 \<le> \<bar>y\<bar> then (if 0 < x then PInf else NInf) else Fin y)"
    using x0 unfolding rnd_def Let_def e assms(5) assms(6) by simp
  then show ?thesis using y' by (auto split: if_splits)
qed





lemma pairwise_sum_short: "length a < 8 \<Longrightarrow> pairwise_sum a = seq_sum (Fin 0) a"
  by (subst pairwise_sum.simps) simp











section \<open>Properties of the grid\<close>

lemma py_int_nonneg: "0 \<le> x \<Longrightarrow> 0 \<le> py_int x"
  by (simp add: py_int_def)

lemma length_linspace_pts: "length (linspace_pts a b n) = n"
  by (simp add: linspace_pts_def)


lemma fold_min_le: "fold min xs (a::real) \<le> a"
proof (induction xs arbitrary: a)
  case Nil
  then show ?case by simp
next
  case (Cons y ys)
  have "fold min ys (min y a) \<le> min y a" by (rule Cons.IH)
  then show ?case by simp
qed

lemma fold_max_ge: "(a::real) \<le> fold max xs a"
proof (induction xs arbitrary: a)
  case Nil
  then show ?case by simp
next
  case (Cons y ys)
  have "max y a \<le> fold max ys (max y a)" by (rule Cons.IH)
  then show ?case by simp
qed

lemma fold_min_lower: "x \<in> set xs \<Longrightarrow> fold min xs (a::real) \<le> x"
proof (induction xs arbitrary: a)
  case Nil
  then show ?case by simp
next
  case (Cons y ys)
  show ?case
  proof (cases "x = y")
    case True
    have "fold min ys (min y a) \<le> min y a" by (rule fold_min_le)
    then show ?thesis using True by simp
  next
    case False
    then show ?thesis using Cons by simp
  qed
qed

lemma fold_max_upper: "x \<in> set xs \<Longrightarrow> x \<le> fold max xs (a::real)"
proof (induction xs arbitrary: a)
  case Nil
  then show ?case by simp
next
  case (Cons y ys)
  show ?case
  proof (cases "x = y")
    case True
    have "max y a \<le> fold max ys (max y a)" by (rule fold_max_ge)
    then show ?thesis using True by simp
  next
    case False
    then show ?thesis using Cons by simp
  qed
qed

lemma arr_min_le: "x \<in> set xs \<Longrightarrow> arr_min xs \<le> x"
  by (cases xs) (auto simp: arr_min_def fold_min_le fold_min_lower)

lemma arr_max_ge: "x \<in> set xs \<Longrightarrow> x \<le> arr_max xs"
  by (cases xs) (auto simp: arr_max_def fold_max_ge fold_max_upper)

lemma arr_min_le_max: "xs \<noteq> [] \<Longrightarrow> arr_min xs \<le> arr_max xs"
proof -
  assume "xs \<noteq> []"
  then have "hd xs \<in> set xs" by simp
  then have "arr_min xs \<le> hd xs" "hd xs \<le> arr_max xs"
    by (rule arr_min_le, rule arr_max_ge)
  then show ?thesis by simp
qed

lemma fold_min_ge: "a \<le> b \<Longrightarrow> list_all (\<lambda>x. a \<le> x) xs \<Longrightarrow> (a::real) \<le> fold min xs b"
  by (induction xs arbitrary: b) auto

lemma fold_max_le: "b \<le> a \<Longrightarrow> list_all (\<lambda>x. x \<le> a) xs \<Longrightarrow> fold max xs b \<le> (a::real)"
  by (induction xs arbitrary: b) auto

lemma arr_min_ge: "xs \<noteq> [] \<Longrightarrow> list_all (\<lambda>x. a \<le> x) xs \<Longrightarrow> a \<le> arr_min xs"
  by (cases xs) (auto simp: arr_min_def intro: fold_min_ge)

lemma arr_max_le: "xs \<noteq> [] \<Longrightarrow> list_all (\<lambda>x. x \<le> a) xs \<Longrightarrow> arr_max xs \<le> a"
  by (cases xs) (auto simp: arr_max_def intro: fold_max_le)

lemma linspace_pts_bounds:
  assumes "a \<le> b"
  shows "list_all (\<lambda>x. a \<le> x \<and> x \<le> b) (linspace_pts a b n)"
proof -
  have "a \<le> real i * ((b - a) / real (n - 1)) + a \<and> real i * ((b - a) / real (n - 1)) + a \<le> b"
    if "i < n - 1" for i
  proof -
    define t where "t = real i * ((b - a) / real (n - 1))"
    have n: "0 < real (n - 1)" using that by simp
    have "0 \<le> t" unfolding t_def using assms by simp
    moreover have "t \<le> real (n - 1) * ((b - a) / real (n - 1))"
      unfolding t_def using that assms by (intro mult_right_mono) (auto simp: divide_nonneg_nonneg)
    then have "t \<le> b - a" using n by simp
    ultimately have "a \<le> t + a \<and> t + a \<le> b" by linarith
    then show ?thesis unfolding t_def .
  qed
  then show ?thesis using assms
    by (auto simp: linspace_pts_def list_all_iff)
qed

lemma linspace_pts_hd: "2 \<le> n \<Longrightarrow> hd (linspace_pts a b n) = a"
  by (simp add: linspace_pts_def hd_map hd_upt)

lemma linspace_pts_first: "1 \<le> n \<Longrightarrow> hd (linspace_pts a b n) = a"
  by (cases "n = 1") (simp_all add: linspace_pts_def hd_map hd_upt)

lemma linspace_pts_last: "2 \<le> n \<Longrightarrow> last (linspace_pts a b n) = b"
  by (simp add: linspace_pts_def last_map)

lemma linspace_pts_min:
  assumes "a \<le> b" "2 \<le> n"
  shows "arr_min (linspace_pts a b n) = a"
proof -
  let ?g = "linspace_pts a b n"
  have ne: "?g \<noteq> []" using assms(2) length_linspace_pts[of a b n] by auto
  have "list_all (\<lambda>x. a \<le> x) ?g"
    using linspace_pts_bounds[OF assms(1), of n] by (simp add: list_all_iff)
  then have "a \<le> arr_min ?g" using ne by (rule arr_min_ge[rotated])
  moreover have "hd ?g \<in> set ?g" using ne by simp
  then have "arr_min ?g \<le> hd ?g" by (rule arr_min_le)
  ultimately show ?thesis using linspace_pts_hd[OF assms(2), of a b] by simp
qed

lemma linspace_pts_max:
  assumes "a \<le> b" "2 \<le> n"
  shows "arr_max (linspace_pts a b n) = b"
proof -
  let ?g = "linspace_pts a b n"
  have ne: "?g \<noteq> []" using assms(2) length_linspace_pts[of a b n] by auto
  have "list_all (\<lambda>x. x \<le> b) ?g"
    using linspace_pts_bounds[OF assms(1), of n] by (simp add: list_all_iff)
  then have "arr_max ?g \<le> b" using ne by (rule arr_max_le[rotated])
  moreover have "last ?g \<in> set ?g" using ne by simp
  then have "last ?g \<le> arr_max ?g" by (rule arr_max_ge)
  ultimately show ?thesis using linspace_pts_last[OF assms(2), of a b] by simp
qed

lemma axis_cells_ge1: "0 < res \<Longrightarrow> 0 \<le> hi - lo + 2 * buffer \<Longrightarrow> 1 \<le> axis_cells res lo hi buffer"
  by (simp add: axis_cells_def py_int_def)

lemma axis_cells_ge2:
  "0 < res \<Longrightarrow> res \<le> hi - lo + 2 * buffer \<Longrightarrow> 2 \<le> axis_cells res lo hi buffer"
proof -
  assume r: "0 < res" and e: "res \<le> hi - lo + 2 * buffer"
  then have "1 \<le> (hi - lo + 2 * buffer) / res" by (simp add: le_divide_eq)
  then have "1 \<le> \<lfloor>(hi - lo + 2 * buffer) / res\<rfloor>" by linarith
  then show ?thesis using r e by (simp add: axis_cells_def py_int_def)
qed



lemma build_axis_strict:
  assumes "0 < buf" "0 < res" "arr_min xs < arr_max xs"
    "res \<le> (arr_max xs - arr_min xs) * (1 + 2 * buf)"
  shows "\<exists>g. build_axis res buf xs = Inr g \<and> arr_min g < arr_min xs \<and> arr_max xs < arr_max g"
proof -
  let ?lo = "arr_min xs" and ?hi = "arr_max xs"
  let ?b = "(?hi - ?lo) * buf"
  let ?n = "axis_cells res ?lo ?hi ?b"
  have ne: "xs \<noteq> []" using assms(3) by (auto simp: arr_min_def arr_max_def)
  have b: "0 < ?b" using assms(1,3) by simp
  have "(?hi - ?lo) * (1 + 2 * buf) = ?hi - ?lo + 2 * ?b" by (simp add: algebra_simps)
  then have "res \<le> ?hi - ?lo + 2 * ?b" using assms(4) by simp
  then have n2: "2 \<le> ?n" using assms(2) by (intro axis_cells_ge2)
  then have nn: "2 \<le> nat ?n" by linarith
  have ord: "?lo - ?b \<le> ?hi + ?b" using assms(3) b by linarith
  have eq: "build_axis res buf xs = Inr (linspace_pts (?lo - ?b) (?hi + ?b) (nat ?n))"
    using ne assms(2) n2 by (simp add: build_axis_def Let_def linspace_def)
  have "arr_min (linspace_pts (?lo - ?b) (?hi + ?b) (nat ?n)) = ?lo - ?b"
    using ord nn by (rule linspace_pts_min)
  moreover have "arr_max (linspace_pts (?lo - ?b) (?hi + ?b) (nat ?n)) = ?hi + ?b"
    using ord nn by (rule linspace_pts_max)
  ultimately show ?thesis using eq b by simp
qed

lemma build_axis_first:
  assumes "0 < res" "0 \<le> buf" "xs \<noteq> []" "build_axis res buf xs = Inr g"
  shows "g \<noteq> [] \<and> hd g = arr_min xs - (arr_max xs - arr_min xs) * buf \<and> hd g = arr_min g"
proof -
  let ?lo = "arr_min xs" and ?hi = "arr_max xs"
  let ?b = "(?hi - ?lo) * buf"
  let ?n = "axis_cells res ?lo ?hi ?b"
  have le: "?lo \<le> ?hi" using assms(3) by (rule arr_min_le_max)
  then have b: "0 \<le> ?b" using assms(2) by simp
  then have "0 \<le> ?hi - ?lo + 2 * ?b" using le by simp
  then have n1: "1 \<le> ?n" using assms(1) by (intro axis_cells_ge1)
  then have nn: "1 \<le> nat ?n" by linarith
  have g: "g = linspace_pts (?lo - ?b) (?hi + ?b) (nat ?n)"
    using assms(1,3,4) n1 by (simp add: build_axis_def Let_def linspace_def)
  have ne: "g \<noteq> []" using nn length_linspace_pts[of "?lo - ?b" "?hi + ?b" "nat ?n"] g by auto
  have h: "hd g = ?lo - ?b" unfolding g using nn by (rule linspace_pts_first)
  have ord: "?lo - ?b \<le> ?hi + ?b" using le b by linarith
  have "list_all (\<lambda>x. ?lo - ?b \<le> x) g"
    using linspace_pts_bounds[OF ord, of "nat ?n"] g by (simp add: list_all_iff)
  then have "?lo - ?b \<le> arr_min g" using ne by (rule arr_min_ge[rotated])
  moreover have "arr_min g \<le> hd g" using ne by (intro arr_min_le) simp
  ultimately show ?thesis using ne h by simp
qed

















section \<open>Properties of inverse distance weighting\<close>

text \<open>
  The weights in terms of squared distances, which is how the cells are evaluated:
  the square of the root is the radicand.
\<close>

lemma idw_cell_code [code]:
  "idw_cell coords vals glon glat =
     weighted_mean
       (map (\<lambda>c. let s = (glon - fst c)\<^sup>2 + (glat - snd c)\<^sup>2
                  in if s = 0 then 1 / eps_floor\<^sup>2 else 1 / s) coords)
       vals"
proof -
  have "(if sqrt s = 0 then 1 / eps_floor\<^sup>2 else 1 / (sqrt s)\<^sup>2)
        = (if s = 0 then 1 / eps_floor\<^sup>2 else 1 / s)" if "0 \<le> s" for s :: real
    using that by simp
  then show ?thesis
    by (simp add: idw_cell_def cdist1_def Let_def comp_def if_distrib[of "\<lambda>d. 1 / d\<^sup>2"] cong: if_cong)
qed

lemma max_sqrt_floor:
  assumes "0 \<le> s" "0 < e"
  shows "(max (sqrt s) e)\<^sup>2 = max s (e\<^sup>2)"
proof (cases "sqrt s \<le> e")
  case True
  then have "(sqrt s)\<^sup>2 \<le> e\<^sup>2" using assms by (intro power_mono) auto
  then have "s \<le> e\<^sup>2" using assms by simp
  then show ?thesis using True by (simp add: max_def)
next
  case False
  then have "e < sqrt s" by simp
  then have "e\<^sup>2 < (sqrt s)\<^sup>2" using assms by (intro power_strict_mono) auto
  then have "e\<^sup>2 < s" using assms by simp
  then show ?thesis using False assms by (simp add: max_def)
qed

lemma app_idw_cell_code [code]:
  "app_idw_cell lats lons vals glat glon =
     weighted_mean
       (map2 (\<lambda>la lo. 1 / max ((la - glat)\<^sup>2 + (lo - glon)\<^sup>2) (eps_floor\<^sup>2)) lats lons)
       vals"
proof -
  have e: "0 < eps_floor" by (simp add: eps_floor_def)
  have "1 / (max (sqrt ((la - glat)\<^sup>2 + (lo - glon)\<^sup>2)) eps_floor)\<^sup>2
        = 1 / max ((la - glat)\<^sup>2 + (lo - glon)\<^sup>2) (eps_floor\<^sup>2)" for la lo
    using max_sqrt_floor[of "(la - glat)\<^sup>2 + (lo - glon)\<^sup>2" eps_floor] e by simp
  then show ?thesis
    by (simp add: app_idw_cell_def Let_def comp_def case_prod_unfold)
qed

lemma sum_weighted_bounds:
  assumes "length ws = length vs" "list_all (\<lambda>w. 0 < w) ws"
    "list_all (\<lambda>v. lo \<le> v \<and> v \<le> hi) vs"
  shows "lo * sum_list ws \<le> sum_list (map2 (*) ws vs) \<and>
         sum_list (map2 (*) ws vs) \<le> hi * sum_list (ws :: real list)"
  using assms
proof (induction ws vs rule: list_induct2)
  case Nil
  then show ?case by simp
next
  case (Cons w ws v vs)
  have w: "0 < w" and v: "lo \<le> v" "v \<le> hi" using Cons.prems by simp_all
  have "lo * w \<le> w * v" using w v(1) by (simp add: mult.commute)
  moreover have "w * v \<le> hi * w" using w v(2) by (simp add: mult.commute)
  moreover have "lo * sum_list ws \<le> sum_list (map2 (*) ws vs) \<and>
         sum_list (map2 (*) ws vs) \<le> hi * sum_list ws"
    using Cons.IH Cons.prems by simp
  ultimately show ?case by (simp add: distrib_left)
qed

lemma sum_list_pos_real:
  "ws \<noteq> [] \<Longrightarrow> list_all (\<lambda>w. 0 < w) ws \<Longrightarrow> 0 < sum_list (ws :: real list)"
proof (induction ws)
  case Nil
  then show ?case by simp
next
  case (Cons w ws)
  show ?case
  proof (cases "ws = []")
    case True
    then show ?thesis using Cons.prems by simp
  next
    case False
    then have "0 < sum_list ws" using Cons by simp
    then show ?thesis using Cons.prems by simp
  qed
qed

lemma weighted_mean_bounds:
  assumes "length ws = length vs" "vs \<noteq> []" "list_all (\<lambda>w. 0 < w) ws"
    "list_all (\<lambda>v. lo \<le> v \<and> v \<le> hi) vs"
  shows "lo \<le> weighted_mean ws vs \<and> weighted_mean ws vs \<le> hi"
proof -
  have "ws \<noteq> []" using assms(1,2) by auto
  then have pos: "0 < sum_list ws" using assms(3) by (rule sum_list_pos_real)
  have b: "lo * sum_list ws \<le> sum_list (map2 (*) ws vs)"
    "sum_list (map2 (*) ws vs) \<le> hi * sum_list ws"
    using sum_weighted_bounds[OF assms(1,3,4)] by simp_all
  show ?thesis using pos b
    by (simp add: weighted_mean_def le_divide_eq divide_le_eq)
qed

lemma vals_in_range: "list_all (\<lambda>v. arr_min vals \<le> v \<and> v \<le> arr_max vals) vals"
  by (simp add: list_all_iff arr_min_le arr_max_ge)

lemma eps_floor_pos: "0 < eps_floor"
  by (simp add: eps_floor_def)

lemma idw_weights_pos:
  "list_all (\<lambda>w. 0 < w)
     (map (\<lambda>d. 1 / d\<^sup>2) (map (\<lambda>d. if d = 0 then eps_floor else d) (cdist1 p coords)))"
  using eps_floor_pos by (auto simp: list_all_iff cdist1_def)

lemma app_weights_pos:
  "list_all (\<lambda>w. 0 < w) (map (\<lambda>d. 1 / d\<^sup>2) (map (\<lambda>d. max d eps_floor) ds))"
proof -
  have "0 < max d eps_floor" for d using eps_floor_pos by (simp add: max_def)
  then have "max d eps_floor \<noteq> 0" for d by (simp add: less_imp_neq[THEN not_sym])
  then have "0 < 1 / (max d eps_floor)\<^sup>2" for d by simp
  then show ?thesis by (simp add: list_all_iff)
qed

lemma idw_cell_bounds:
  assumes "vals \<noteq> []" "length coords = length vals"
    "list_all (\<lambda>v. lo \<le> v \<and> v \<le> hi) vals"
  shows "lo \<le> idw_cell coords vals x y \<and> idw_cell coords vals x y \<le> hi"
proof -
  let ?ws = "map (\<lambda>d. 1 / d\<^sup>2) (map (\<lambda>d. if d = 0 then eps_floor else d) (cdist1 (x, y) coords))"
  have p: "list_all (\<lambda>w. 0 < w) ?ws" by (rule idw_weights_pos)
  have l: "length ?ws = length vals" using assms(2) by (simp add: cdist1_def)
  have "lo \<le> weighted_mean ?ws vals \<and> weighted_mean ?ws vals \<le> hi"
    using l assms(1) p assms(3) by (rule weighted_mean_bounds)
  then show ?thesis unfolding idw_cell_def Let_def .
qed

lemma app_idw_cell_bounds:
  assumes "vals \<noteq> []" "length lats = length vals" "length lons = length vals"
    "list_all (\<lambda>v. lo \<le> v \<and> v \<le> hi) vals"
  shows "lo \<le> app_idw_cell lats lons vals y x \<and> app_idw_cell lats lons vals y x \<le> hi"
proof -
  let ?ds = "map2 (\<lambda>la lo. sqrt ((la - y)\<^sup>2 + (lo - x)\<^sup>2)) lats lons"
  let ?ws = "map (\<lambda>d. 1 / d\<^sup>2) (map (\<lambda>d. max d eps_floor) ?ds)"
  have p: "list_all (\<lambda>w. 0 < w) ?ws" by (rule app_weights_pos)
  have l: "length ?ws = length vals" using assms(2,3) by simp
  have "lo \<le> weighted_mean ?ws vals \<and> weighted_mean ?ws vals \<le> hi"
    using l assms(1) p assms(4) by (rule weighted_mean_bounds)
  then show ?thesis unfolding app_idw_cell_def Let_def .
qed

text \<open>
  Claim C9, as the code has it. Evaluated exactly, every cell of the inverse-distance
  surface of a non-empty set of samples lies between the smallest and the largest
  sample value, in both implementations, and equals \<open>c\<close> when all sample values equal
  \<open>c\<close>. This is a statement about the formula: the floats of the program round every
  operation, and the rounded estimate can leave the range, as shown just below.
\<close>

theorem idw_within_sample_range:
  assumes "vals \<noteq> []" and "length coords = length vals"
    and "length lats = length vals" and "length lons = length vals"
  shows "list_all (list_all (\<lambda>z. arr_min vals \<le> z \<and> z \<le> arr_max vals))
           (idw_surface coords vals glon glat)
       \<and> list_all (list_all (\<lambda>z. arr_min vals \<le> z \<and> z \<le> arr_max vals))
           (app_idw_surface lats lons vals grid_lats grid_lons)
       \<and> (list_all (\<lambda>v. v = c) vals \<longrightarrow>
            list_all (list_all (\<lambda>z. z = c)) (idw_surface coords vals glon glat)
          \<and> list_all (list_all (\<lambda>z. z = c)) (app_idw_surface lats lons vals grid_lats grid_lons))"
proof (intro conjI impI)
  show "list_all (list_all (\<lambda>z. arr_min vals \<le> z \<and> z \<le> arr_max vals))
           (idw_surface coords vals glon glat)"
    using idw_cell_bounds[OF assms(1,2) vals_in_range]
    by (simp add: idw_surface_def list_all_iff)
  show "list_all (list_all (\<lambda>z. arr_min vals \<le> z \<and> z \<le> arr_max vals))
           (app_idw_surface lats lons vals grid_lats grid_lons)"
    using app_idw_cell_bounds[OF assms(1,3,4) vals_in_range]
    by (simp add: app_idw_surface_def list_all_iff)
next
  assume c: "list_all (\<lambda>v. v = c) vals"
  then have r: "list_all (\<lambda>v. c \<le> v \<and> v \<le> c) vals" by (simp add: list_all_iff)
  have "idw_cell coords vals x y = c" for x y
    using idw_cell_bounds[OF assms(1,2) r, of x y] by simp
  then show "list_all (list_all (\<lambda>z. z = c)) (idw_surface coords vals glon glat)"
    by (simp add: idw_surface_def list_all_iff)
  have "app_idw_cell lats lons vals y x = c" for x y
    using app_idw_cell_bounds[OF assms(1,3,4) r, of y x] by simp
  then show "list_all (list_all (\<lambda>z. z = c)) (app_idw_surface lats lons vals grid_lats grid_lons)"
    by (simp add: app_idw_surface_def list_all_iff)
qed

theorem idw_within_sample_range_witness:
  "list_all (list_all (\<lambda>z. arr_min [1, 3] \<le> z \<and> z \<le> arr_max [1, 3]))
     (idw_surface [(0, 0), (2, 0)] [1, 3] [0, 1] [0])
   \<and> list_all (list_all (\<lambda>z. arr_min [1, 3] \<le> z \<and> z \<le> arr_max [1, 3]))
     (app_idw_surface [0, 0] [0, 2] [1, 3] [0] [0, 1])
   \<and> list_all (list_all (\<lambda>z. z = 7)) (idw_surface [(0, 0), (2, 0)] [7, 7] [0, 1] [0])"
proof -
  have 1: "[1, 3::real] \<noteq> []" "length [(0::real, 0::real), (2, 0)] = length [1, 3::real]"
    "length [0, 0::real] = length [1, 3::real]" "length [0, 2::real] = length [1, 3::real]"
    by simp_all
  have 2: "[7, 7::real] \<noteq> []" "length [(0::real, 0::real), (2, 0)] = length [7, 7::real]"
    "length [0, 0::real] = length [7, 7::real]" "length [0, 2::real] = length [7, 7::real]"
    "list_all (\<lambda>v. v = 7) [7, 7::real]"
    by simp_all
  show ?thesis
    using idw_within_sample_range[OF 1, of "[0, 1]" "[0]" "[0]" "[0, 1]" 0]
      idw_within_sample_range[OF 2(1-4), of "[0, 1]" "[0]" "[0]" "[0, 1]" 7] 2(5)
    by blast
qed

text \<open>
  On the floats of the program: five samples at distances 5, 10, 13, 17 and 25 from the
  cell \<open>(0, 0)\<close>, all of value 23.4 (the float \<open>3293257227514675 / 2 ^ 47\<close>). Both
  implementations give \<open>6586514455029349 / 2 ^ 48\<close>, which is 23.399999999999995: less
  than every sample value.
\<close>

theorem idw_rounding_counterexample:
  "rnd (234 / 10) = Fin (3293257227514675 / 140737488355328)
   \<and> idw_cell_f64 triple_sites
        [Fin (3293257227514675 / 140737488355328), Fin (3293257227514675 / 140737488355328),
         Fin (3293257227514675 / 140737488355328), Fin (3293257227514675 / 140737488355328),
         Fin (3293257227514675 / 140737488355328)] (Fin 0) (Fin 0)
       = Fin (6586514455029349 / 281474976710656)
   \<and> app_idw_cell_f64 (map snd triple_sites) (map fst triple_sites)
        [Fin (3293257227514675 / 140737488355328), Fin (3293257227514675 / 140737488355328),
         Fin (3293257227514675 / 140737488355328), Fin (3293257227514675 / 140737488355328),
         Fin (3293257227514675 / 140737488355328)] (Fin 0) (Fin 0)
       = Fin (6586514455029349 / 281474976710656)
   \<and> (6586514455029349 / 281474976710656 :: real) < 3293257227514675 / 140737488355328"
proof -
  have r1: "rnd (117 / 5) = Fin (3293257227514675 / 140737488355328)"
    by (rule rnd_eval[where j = "4" and m = "6586514455029350"]) (simp_all add: pow2_def round_even_def Let_def)
  have r2: "rnd (- 3) = Fin (- 3)"
    by (rule rnd_eval[where j = "1" and m = "-6755399441055744"]) (simp_all add: pow2_def round_even_def Let_def)
  have r3: "rnd (- 4) = Fin (- 4)"
    by (rule rnd_eval[where j = "2" and m = "-4503599627370496"]) (simp_all add: pow2_def round_even_def Let_def)
  have r4: "rnd (9) = Fin (9)"
    by (rule rnd_eval[where j = "3" and m = "5066549580791808"]) (simp_all add: pow2_def round_even_def Let_def)
  have r5: "rnd (16) = Fin (16)"
    by (rule rnd_eval[where j = "4" and m = "4503599627370496"]) (simp_all add: pow2_def round_even_def Let_def)
  have r6: "rnd (25) = Fin (25)"
    by (rule rnd_eval[where j = "4" and m = "7036874417766400"]) (simp_all add: pow2_def round_even_def Let_def)
  have r7: "rnd (5) = Fin (5)"
    by (rule rnd_eval[where j = "2" and m = "5629499534213120"]) (simp_all add: pow2_def round_even_def Let_def)
  have r8: "rnd (- 6) = Fin (- 6)"
    by (rule rnd_eval[where j = "2" and m = "-6755399441055744"]) (simp_all add: pow2_def round_even_def Let_def)
  have r9: "rnd (- 8) = Fin (- 8)"
    by (rule rnd_eval[where j = "3" and m = "-4503599627370496"]) (simp_all add: pow2_def round_even_def Let_def)
  have r10: "rnd (36) = Fin (36)"
    by (rule rnd_eval[where j = "5" and m = "5066549580791808"]) (simp_all add: pow2_def round_even_def Let_def)
  have r11: "rnd (64) = Fin (64)"
    by (rule rnd_eval[where j = "6" and m = "4503599627370496"]) (simp_all add: pow2_def round_even_def Let_def)
  have r12: "rnd (100) = Fin (100)"
    by (rule rnd_eval[where j = "6" and m = "7036874417766400"]) (simp_all add: pow2_def round_even_def Let_def)
  have r13: "rnd (10) = Fin (10)"
    by (rule rnd_eval[where j = "3" and m = "5629499534213120"]) (simp_all add: pow2_def round_even_def Let_def)
  have r14: "rnd (- 5) = Fin (- 5)"
    by (rule rnd_eval[where j = "2" and m = "-5629499534213120"]) (simp_all add: pow2_def round_even_def Let_def)
  have r15: "rnd (- 12) = Fin (- 12)"
    by (rule rnd_eval[where j = "3" and m = "-6755399441055744"]) (simp_all add: pow2_def round_even_def Let_def)
  have r16: "rnd (144) = Fin (144)"
    by (rule rnd_eval[where j = "7" and m = "5066549580791808"]) (simp_all add: pow2_def round_even_def Let_def)
  have r17: "rnd (169) = Fin (169)"
    by (rule rnd_eval[where j = "7" and m = "5946158883012608"]) (simp_all add: pow2_def round_even_def Let_def)
  have r18: "rnd (13) = Fin (13)"
    by (rule rnd_eval[where j = "3" and m = "7318349394477056"]) (simp_all add: pow2_def round_even_def Let_def)
  have r19: "rnd (- 15) = Fin (- 15)"
    by (rule rnd_eval[where j = "3" and m = "-8444249301319680"]) (simp_all add: pow2_def round_even_def Let_def)
  have r20: "rnd (225) = Fin (225)"
    by (rule rnd_eval[where j = "7" and m = "7916483719987200"]) (simp_all add: pow2_def round_even_def Let_def)
  have r21: "rnd (289) = Fin (289)"
    by (rule rnd_eval[where j = "8" and m = "5084141766836224"]) (simp_all add: pow2_def round_even_def Let_def)
  have r22: "rnd (17) = Fin (17)"
    by (rule rnd_eval[where j = "4" and m = "4785074604081152"]) (simp_all add: pow2_def round_even_def Let_def)
  have r23: "rnd (- 7) = Fin (- 7)"
    by (rule rnd_eval[where j = "2" and m = "-7881299347898368"]) (simp_all add: pow2_def round_even_def Let_def)
  have r24: "rnd (- 24) = Fin (- 24)"
    by (rule rnd_eval[where j = "4" and m = "-6755399441055744"]) (simp_all add: pow2_def round_even_def Let_def)
  have r25: "rnd (49) = Fin (49)"
    by (rule rnd_eval[where j = "5" and m = "6896136929411072"]) (simp_all add: pow2_def round_even_def Let_def)
  have r26: "rnd (576) = Fin (576)"
    by (rule rnd_eval[where j = "9" and m = "5066549580791808"]) (simp_all add: pow2_def round_even_def Let_def)
  have r27: "rnd (625) = Fin (625)"
    by (rule rnd_eval[where j = "9" and m = "5497558138880000"]) (simp_all add: pow2_def round_even_def Let_def)
  have r28: "rnd (1 / 10000000000) = Fin (7737125245533627 / 77371252455336267181195264)"
    by (rule rnd_eval[where j = "- 34" and m = "7737125245533627"]) (simp_all add: pow2_def round_even_def Let_def)
  have r29: "rnd (1 / 25) = Fin (5764607523034235 / 144115188075855872)"
    by (rule rnd_eval[where j = "- 5" and m = "5764607523034235"]) (simp_all add: pow2_def round_even_def Let_def)
  have r30: "rnd (1 / 100) = Fin (5764607523034235 / 576460752303423488)"
    by (rule rnd_eval[where j = "- 7" and m = "5764607523034235"]) (simp_all add: pow2_def round_even_def Let_def)
  have r31: "rnd (1 / 169) = Fin (6822020737318621 / 1152921504606846976)"
    by (rule rnd_eval[where j = "- 8" and m = "6822020737318621"]) (simp_all add: pow2_def round_even_def Let_def)
  have r32: "rnd (1 / 289) = Fin (3989347766805699 / 1152921504606846976)"
    by (rule rnd_eval[where j = "- 9" and m = "7978695533611398"]) (simp_all add: pow2_def round_even_def Let_def)
  have r33: "rnd (1 / 625) = Fin (7378697629483821 / 4611686018427387904)"
    by (rule rnd_eval[where j = "- 10" and m = "7378697629483821"]) (simp_all add: pow2_def round_even_def Let_def)
  have r34: "rnd (18984335389017962759083989898625 / 20282409603651670423947251286016) = Fin (131730289100587 / 140737488355328)"
    by (rule rnd_eval[where j = "- 1" and m = "8430738502437568"]) (simp_all add: pow2_def round_even_def Let_def)
  have r35: "rnd (18984335389017962759083989898625 / 81129638414606681695789005144064) = Fin (131730289100587 / 562949953421312)"
    by (rule rnd_eval[where j = "- 3" and m = "8430738502437568"]) (simp_all add: pow2_def round_even_def Let_def)
  have r36: "rnd (22466669099429540732903428263175 / 162259276829213363391578010288128) = Fin (4988602664164241 / 36028797018963968)"
    by (rule rnd_eval[where j = "- 3" and m = "4988602664164241"]) (simp_all add: pow2_def round_even_def Let_def)
  have r37: "rnd (13137948366102396498417396132825 / 162259276829213363391578010288128) = Fin (2917210554476667 / 36028797018963968)"
    by (rule rnd_eval[where j = "- 4" and m = "5834421108953334"]) (simp_all add: pow2_def round_even_def Let_def)
  have r38: "rnd (24299949297942992990278952573175 / 649037107316853453566312041152512) = Fin (1348918160390011 / 36028797018963968)"
    by (rule rnd_eval[where j = "- 5" and m = "5395672641560044"]) (simp_all add: pow2_def round_even_def Let_def)
  have r39: "rnd (131730289100587 / 140737488355328) = Fin (131730289100587 / 140737488355328)"
    by (rule rnd_eval[where j = "- 1" and m = "8430738502437568"]) (simp_all add: pow2_def round_even_def Let_def)
  have r40: "rnd (658651445502935 / 562949953421312) = Fin (658651445502935 / 562949953421312)"
    by (rule rnd_eval[where j = "0" and m = "5269211564023480"]) (simp_all add: pow2_def round_even_def Let_def)
  have r41: "rnd (47142295176352081 / 36028797018963968) = Fin (2946393448522005 / 2251799813685248)"
    by (rule rnd_eval[where j = "0" and m = "5892786897044010"]) (simp_all add: pow2_def round_even_def Let_def)
  have r42: "rnd (50059505730828747 / 36028797018963968) = Fin (6257438216353593 / 4503599627370496)"
    by (rule rnd_eval[where j = "0" and m = "6257438216353593"]) (simp_all add: pow2_def round_even_def Let_def)
  have r43: "rnd (51408423891218755 / 36028797018963968) = Fin (803256623300293 / 562949953421312)"
    by (rule rnd_eval[where j = "0" and m = "6426052986402344"]) (simp_all add: pow2_def round_even_def Let_def)
  have r44: "rnd (803256623300293 / 562949953421312) = Fin (803256623300293 / 562949953421312)"
    by (rule rnd_eval[where j = "0" and m = "6426052986402344"]) (simp_all add: pow2_def round_even_def Let_def)
  have r45: "rnd (5764607523034235 / 144115188075855872) = Fin (5764607523034235 / 144115188075855872)"
    by (rule rnd_eval[where j = "- 5" and m = "5764607523034235"]) (simp_all add: pow2_def round_even_def Let_def)
  have r46: "rnd (28823037615171175 / 576460752303423488) = Fin (3602879701896397 / 72057594037927936)"
    by (rule rnd_eval[where j = "- 5" and m = "7205759403792794"]) (simp_all add: pow2_def round_even_def Let_def)
  have r47: "rnd (64468095967660973 / 1152921504606846976) = Fin (4029255997978811 / 72057594037927936)"
    by (rule rnd_eval[where j = "- 5" and m = "8058511995957622"]) (simp_all add: pow2_def round_even_def Let_def)
  have r48: "rnd (68457443734466675 / 1152921504606846976) = Fin (4278590233404167 / 72057594037927936)"
    by (rule rnd_eval[where j = "- 5" and m = "8557180466808334"]) (simp_all add: pow2_def round_even_def Let_def)
  have r49: "rnd (281208472567350509 / 4611686018427387904) = Fin (8787764767729703 / 144115188075855872)"
    by (rule rnd_eval[where j = "- 5" and m = "8787764767729703"]) (simp_all add: pow2_def round_even_def Let_def)
  have r50: "rnd (8787764767729703 / 144115188075855872) = Fin (8787764767729703 / 144115188075855872)"
    by (rule rnd_eval[where j = "- 5" and m = "8787764767729703"]) (simp_all add: pow2_def round_even_def Let_def)
  have r51: "rnd (205633695564875008 / 8787764767729703) = Fin (6586514455029349 / 281474976710656)"
    by (rule rnd_eval[where j = "4" and m = "6586514455029349"]) (simp_all add: pow2_def round_even_def Let_def)
  have r52: "rnd (4) = Fin (4)"
    by (rule rnd_eval[where j = "2" and m = "4503599627370496"]) (simp_all add: pow2_def round_even_def Let_def)
  have r53: "rnd (3) = Fin (3)"
    by (rule rnd_eval[where j = "1" and m = "6755399441055744"]) (simp_all add: pow2_def round_even_def Let_def)
  have r54: "rnd (8) = Fin (8)"
    by (rule rnd_eval[where j = "3" and m = "4503599627370496"]) (simp_all add: pow2_def round_even_def Let_def)
  have r55: "rnd (6) = Fin (6)"
    by (rule rnd_eval[where j = "2" and m = "6755399441055744"]) (simp_all add: pow2_def round_even_def Let_def)
  have r56: "rnd (12) = Fin (12)"
    by (rule rnd_eval[where j = "3" and m = "6755399441055744"]) (simp_all add: pow2_def round_even_def Let_def)
  have r57: "rnd (15) = Fin (15)"
    by (rule rnd_eval[where j = "3" and m = "8444249301319680"]) (simp_all add: pow2_def round_even_def Let_def)
  have r58: "rnd (24) = Fin (24)"
    by (rule rnd_eval[where j = "4" and m = "6755399441055744"]) (simp_all add: pow2_def round_even_def Let_def)
  have r59: "rnd (7) = Fin (7)"
    by (rule rnd_eval[where j = "2" and m = "7881299347898368"]) (simp_all add: pow2_def round_even_def Let_def)
  have s: "sqrt 25 = 5" "sqrt 100 = 10" "sqrt 169 = 13" "sqrt 289 = 17" "sqrt 625 = 25"
    by (rule real_sqrt_unique; simp)+
  note r = r1 r2 r3 r4 r5 r6 r7 r8 r9 r10 r11 r12 r13 r14 r15 r16 r17 r18 r19 r20 r21 r22 r23 r24 r25 r26 r27 r28 r29 r30 r31 r32 r33 r34 r35 r36 r37 r38 r39 r40 r41 r42 r43 r44 r45 r46 r47 r48 r49 r50 r51 r52 r53 r54 r55 r56 r57 r58 r59
  have a: "idw_cell_f64 triple_sites
        [Fin (3293257227514675 / 140737488355328), Fin (3293257227514675 / 140737488355328),
         Fin (3293257227514675 / 140737488355328), Fin (3293257227514675 / 140737488355328),
         Fin (3293257227514675 / 140737488355328)] (Fin 0) (Fin 0)
       = Fin (6586514455029349 / 281474976710656)"
    by (simp add: idw_cell_f64_def cdist1_f64_def weighted_mean_f64_def np_sum_def
        pairwise_sum_short seq_sum_def triple_sites_def fsub_def eps_floor_def Let_def r s)
  have b: "app_idw_cell_f64 (map snd triple_sites) (map fst triple_sites)
        [Fin (3293257227514675 / 140737488355328), Fin (3293257227514675 / 140737488355328),
         Fin (3293257227514675 / 140737488355328), Fin (3293257227514675 / 140737488355328),
         Fin (3293257227514675 / 140737488355328)] (Fin 0) (Fin 0)
       = Fin (6586514455029349 / 281474976710656)"
    by (simp add: app_idw_cell_f64_def weighted_mean_f64_def np_sum_def
        pairwise_sum_short seq_sum_def triple_sites_def fsub_def eps_floor_def Let_def r s)
  show ?thesis using r1 a b by simp
qed

section \<open>Properties of the method choice\<close>




section \<open>Properties of the detector\<close>

lemma fold_detect_step:
  "fold detect_step cols (la, lo) =
     ((case rev (filter (matches_any lat_patterns) cols) of [] \<Rightarrow> la | c # _ \<Rightarrow> Some c),
      (case rev (filter (\<lambda>c. \<not> matches_any lat_patterns c \<and> matches_any lon_patterns c) cols) of [] \<Rightarrow> lo | c # _ \<Rightarrow> Some c))"
proof (induction cols arbitrary: la lo)
  case Nil
  then show ?case by simp
next
  case (Cons c cols)
  consider (lat) "matches_any lat_patterns c"
    | (lon) "\<not> matches_any lat_patterns c" "matches_any lon_patterns c"
    | (none) "\<not> matches_any lat_patterns c" "\<not> matches_any lon_patterns c"
    by blast
  then show ?case
  proof cases
    case lat
    then have "fold detect_step (c # cols) (la, lo) = fold detect_step cols (Some c, lo)"
      by (simp add: detect_step_def)
    then show ?thesis using lat by (simp add: Cons.IH split: list.splits)
  next
    case lon
    then have "fold detect_step (c # cols) (la, lo) = fold detect_step cols (la, Some c)"
      by (simp add: detect_step_def)
    then show ?thesis using lon by (simp add: Cons.IH split: list.splits)
  next
    case none
    then have "fold detect_step (c # cols) (la, lo) = fold detect_step cols (la, lo)"
      by (simp add: detect_step_def)
    then show ?thesis using none by (simp add: Cons.IH split: list.splits)
  qed
qed

lemma py_in_nonempty: "py_in p s \<Longrightarrow> p \<noteq> [] \<Longrightarrow> s \<noteq> []"
  by (cases s) auto

lemma matches_lat_nonempty: "matches_any lat_patterns c \<Longrightarrow> c \<noteq> []"
  by (auto simp: matches_any_def lat_patterns_def lower_def)

lemma matches_lon_nonempty: "matches_any lon_patterns c \<Longrightarrow> c \<noteq> []"
  by (auto simp: matches_any_def lon_patterns_def lower_def)

text \<open>
  Claim C7, as the code has it. The detector returns the last column in table order
  that matches a latitude pattern, and the last column that matches a longitude
  pattern without matching a latitude pattern; it returns nothing when either is
  missing.
\<close>

theorem detect_last_match:
  "detect_coordinate_columns cols =
     (case (rev (filter (matches_any lat_patterns) cols),
            rev (filter (\<lambda>c. \<not> matches_any lat_patterns c \<and> matches_any lon_patterns c) cols)) of
        (lat_col # _, lon_col # _) \<Rightarrow> Some (lat_col, lon_col)
      | _ \<Rightarrow> None)"
proof -
  let ?A = "rev (filter (matches_any lat_patterns) cols)"
  let ?B = "rev (filter (\<lambda>c. \<not> matches_any lat_patterns c \<and> matches_any lon_patterns c) cols)"
  have a: "?A = x # xs \<Longrightarrow> x \<noteq> []" for x xs
  proof -
    assume "?A = x # xs"
    then have "x \<in> set ?A" by simp
    then show ?thesis using matches_lat_nonempty by auto
  qed
  have b: "?B = x # xs \<Longrightarrow> x \<noteq> []" for x xs
  proof -
    assume "?B = x # xs"
    then have "x \<in> set ?B" by simp
    then show ?thesis using matches_lon_nonempty by auto
  qed
  show ?thesis
    unfolding detect_coordinate_columns_def fold_detect_step
    using a b by (auto split: list.splits)
qed

text \<open>
  Two latitude candidates: the first in table order is \<open>lat\<close>, the detector answers
  \<open>lat_2\<close>.
\<close>

theorem detect_first_match_counterexample:
  "filter (matches_any lat_patterns) [''lat'', ''lat_2'', ''lon''] = [''lat'', ''lat_2'']
   \<and> detect_coordinate_columns [''lat'', ''lat_2'', ''lon''] = Some (''lat_2'', ''lon'')"
  by (simp add: detect_coordinate_columns_def detect_step_def matches_any_def lat_patterns_def
      lon_patterns_def lower_def lower_char_def)

lemma marked_suitable_numeric:
  "marked_suitable (get_variable_info (Numeric xs)) \<longleftrightarrow>
     10 \<le> count_non_null xs \<and> 5 < nunique xs"
  by (auto simp: marked_suitable_def count_non_null_def)

lemma nunique_card: "nunique xs = card {v. Some v \<in> set xs}"
proof -
  have "set (List.map_filter id xs) = {v. Some v \<in> set xs}"
    by (force simp: List.map_filter_def)
  then show ?thesis by (simp add: nunique_def length_remdups_card_conv)
qed

lemma count_card: "count_non_null xs = length (filter (\<lambda>x. x \<noteq> None) xs)"
  by (simp add: count_non_null_def List.map_filter_def)

text \<open>
  Claim C8. A numeric column is marked suitable for interpolation exactly when it has
  at least 10 non-null cells and more than 5 distinct non-null values.
\<close>

theorem suitable_iff_counts:
  "marked_suitable (get_variable_info (Numeric xs)) \<longleftrightarrow>
     10 \<le> length (filter (\<lambda>x. x \<noteq> None) xs) \<and> 5 < card {v. Some v \<in> set xs}"
  using marked_suitable_numeric[of xs] by (simp add: nunique_card count_card)

section \<open>Properties of the strings, the directory and the bands\<close>

lemma starts_with_iff: "starts_with p s \<longleftrightarrow> (\<exists>r. s = p @ r)"
  by (induction p s rule: starts_with.induct) auto

lemma py_in_iff: "py_in p s \<longleftrightarrow> (\<exists>a b. s = a @ p @ b)"
proof (induction s)
  case Nil
  then show ?case by auto
next
  case (Cons c cs)
  show ?case
  proof
    assume "py_in p (c # cs)"
    then consider "starts_with p (c # cs)" | "py_in p cs" by auto
    then show "\<exists>a b. c # cs = a @ p @ b"
    proof cases
      case 1
      then obtain r where "c # cs = p @ r" by (auto simp: starts_with_iff)
      then have "c # cs = [] @ p @ r" by simp
      then show ?thesis by blast
    next
      case 2
      then obtain a b where "cs = a @ p @ b" using Cons.IH by auto
      then have "c # cs = (c # a) @ p @ b" by simp
      then show ?thesis by blast
    qed
  next
    assume "\<exists>a b. c # cs = a @ p @ b"
    then obtain a b where ab: "c # cs = a @ p @ b" by auto
    show "py_in p (c # cs)"
    proof (cases a)
      case Nil
      then have "starts_with p (c # cs)" using ab by (auto simp: starts_with_iff)
      then show ?thesis by simp
    next
      case (Cons x xs)
      then have "cs = xs @ p @ b" using ab by simp
      then have "py_in p cs" using Cons.IH by blast
      then show ?thesis by simp
    qed
  qed
qed

lemma split_aux_length: "1 \<le> length (split_aux sep k cur s)"
  by (induction sep k cur s rule: split_aux.induct) auto

lemma split_aux_two:
  "py_in sep s \<Longrightarrow> sep \<noteq> [] \<Longrightarrow> 2 \<le> length (split_aux sep 0 cur s)"
proof (induction s arbitrary: cur)
  case Nil
  then show ?case by simp
next
  case (Cons c cs)
  show ?case
  proof (cases "starts_with sep (c # cs)")
    case True
    have "1 \<le> length (split_aux sep (length sep - 1) [] cs)" by (rule split_aux_length)
    then show ?thesis using True by simp
  next
    case False
    then have "py_in sep cs" using Cons.prems by simp
    then have "2 \<le> length (split_aux sep 0 (c # cur) cs)" using Cons.IH Cons.prems by blast
    then show ?thesis using False by simp
  qed
qed

lemma py_split_index1:
  "py_in sep s \<Longrightarrow> sep \<noteq> [] \<Longrightarrow> \<exists>part. py_index (py_split sep s) 1 = Inr part"
  using split_aux_two[of sep s "[]"] by (simp add: py_split_def py_index_def)

lemma daily_name_parts:
  assumes "daily_name name"
  shows "py_in ''_'' name" and "py_in ''_daily_'' name"
proof -
  from assms obtain rest where n: "name = ''uganda_'' @ rest"
    by (auto simp: daily_name_def starts_with_iff)
  then have "name = ''uganda'' @ ''_'' @ rest" by simp
  then show "py_in ''_'' name" unfolding py_in_iff by blast
  from assms n have "py_in ''_daily_'' (take (length rest - 4) rest)"
    by (simp add: daily_name_def Let_def)
  then obtain a b where "take (length rest - 4) rest = a @ ''_daily_'' @ b"
    unfolding py_in_iff by blast
  then have "rest = a @ ''_daily_'' @ (b @ drop (length rest - 4) rest)"
    by (metis append.assoc append_take_drop_id)
  then have "name = (''uganda_'' @ a) @ ''_daily_'' @ (b @ drop (length rest - 4) rest)"
    using n by simp
  then show "py_in ''_daily_'' name" unfolding py_in_iff by blast
qed

lemma basename_out_path: "CHR ''/'' \<notin> set name \<Longrightarrow> basename (out_path name) = name"
proof -
  assume a: "CHR ''/'' \<notin> set name"
  have "takeWhile (\<lambda>c. c \<noteq> CHR ''/'') (rev name @ (CHR ''/'' # rev output_dir))
          = rev name @ takeWhile (\<lambda>c. c \<noteq> CHR ''/'') (CHR ''/'' # rev output_dir)"
    by (rule takeWhile_append2) (use a in auto)
  then show ?thesis by (simp add: basename_def out_path_def)
qed

lemma fs_read_present: "p \<in> fst ` set files \<Longrightarrow> \<exists>r. fs_read files p = Inr r"
  by (cases "map_of files p") (auto simp: fs_read_def map_of_eq_None_iff)

lemma fs_read_write_other:
  "p \<noteq> q \<Longrightarrow> fs_read (fs_write files q r) p = fs_read files p"
  by (simp add: fs_read_def fs_write_def)

lemma fs_read_write_same: "fs_read (fs_write files q r) q = Inr r"
  by (simp add: fs_read_def fs_write_def)

lemma glob_daily_set:
  "f \<in> set (glob_daily files) \<Longrightarrow> f \<in> fst ` set files \<and> daily_name (basename f)"
  by (auto simp: glob_daily_def)

lemma stack_not_daily: "multi_geostack_path \<notin> set (glob_daily files)"
proof
  assume "multi_geostack_path \<in> set (glob_daily files)"
  then have "daily_name (basename multi_geostack_path)" using glob_daily_set by blast
  moreover have "basename multi_geostack_path = ''uganda_all_variables_geostack.tif''"
    unfolding multi_geostack_path_def by (rule basename_out_path) simp
  ultimately show False by (simp add: daily_name_def ends_with_def)
qed

lemma length_r_bands: "length (r_bands r) = Suc (length (r_more_bands r))"
  by (simp add: r_bands_def)

lemma write_band_bands:
  assumes "write_band dst data i = Inr dst'"
  shows "1 \<le> i \<and> i \<le> length (r_bands dst) \<and> r_bands dst' = (r_bands dst)[i - 1 := data]
         \<and> r_height dst' = r_height dst \<and> r_width dst' = r_width dst
         \<and> r_transform dst' = r_transform dst"
proof (cases "i = 1")
  case True
  then show ?thesis using assms by (auto simp: write_band_def r_bands_def)
next
  case False
  then have i: "2 \<le> i" "i \<le> Suc (length (r_more_bands dst))"
    and d: "dst' = dst\<lparr>r_more_bands := (r_more_bands dst)[i - 2 := data]\<rparr>"
    using assms by (auto simp: write_band_def split: if_splits)
  obtain k where k: "i = Suc (Suc k)" using i(1) by (metis Suc_le_D numeral_2_eq_2 Suc_le_mono le_0_eq not0_implies_Suc)
  show ?thesis using i d k by (simp add: r_bands_def)
qed

lemma write_band_ok:
  "1 \<le> i \<Longrightarrow> i \<le> length (r_bands dst) \<Longrightarrow> \<exists>dst'. write_band dst data i = Inr dst'"
  by (auto simp: write_band_def r_bands_def)

lemma bands_set_description [simp]: "r_bands (set_band_description dst i d) = r_bands dst"
  by (simp add: set_band_description_def r_bands_def)

lemma write_bands_ok:
  assumes "set rest \<subseteq> fst ` set files" "1 \<le> i" "i + length rest \<le> Suc (length (r_bands dst))"
  shows "\<exists>dst'. write_bands files describe i rest dst = Inr dst'"
  using assms
proof (induction rest arbitrary: i dst)
  case Nil
  then show ?case by simp
next
  case (Cons f rest)
  obtain src where src: "fs_read files f = Inr src"
    using fs_read_present[of f files] Cons.prems(1) by auto
  have "i \<le> length (r_bands dst)" using Cons.prems(3) by simp
  then obtain dst1 where w: "write_band dst (read_band1 src) i = Inr dst1"
    using write_band_ok[OF Cons.prems(2)] by blast
  have len: "length (r_bands dst1) = length (r_bands dst)"
    using write_band_bands[OF w] by simp
  have "\<exists>dst'. write_bands files describe (Suc i) rest
          (set_band_description dst1 i (describe f)) = Inr dst'"
    using Cons.prems len by (intro Cons.IH) auto
  then show ?case using src w by simp
qed

lemma write_bands_result:
  assumes "write_bands files describe i rest dst = Inr dst'" "1 \<le> i"
  shows "length (r_bands dst') = length (r_bands dst)
       \<and> (\<forall>j < length rest. \<exists>src. fs_read files (rest ! j) = Inr src
                                  \<and> r_bands dst' ! (i + j - 1) = r_band1 src)
       \<and> (\<forall>k < i - 1. r_bands dst' ! k = r_bands dst ! k)"
  using assms
proof (induction rest arbitrary: i dst)
  case Nil
  then show ?case by simp
next
  case (Cons f rest)
  from Cons.prems(1) obtain src dst1 where src: "fs_read files f = Inr src"
    and w: "write_band dst (read_band1 src) i = Inr dst1"
    and r: "write_bands files describe (Suc i) rest
              (set_band_description dst1 i (describe f)) = Inr dst'"
    by (auto split: sum.splits)
  let ?d = "set_band_description dst1 i (describe f)"
  have wb: "i \<le> length (r_bands dst)" "r_bands ?d = (r_bands dst)[i - 1 := r_band1 src]"
    using write_band_bands[OF w] by (simp_all add: read_band1_def)
  have ih: "length (r_bands dst') = length (r_bands ?d)"
    "\<forall>j < length rest. \<exists>src. fs_read files (rest ! j) = Inr src
                                  \<and> r_bands dst' ! (Suc i + j - 1) = r_band1 src"
    "\<forall>k < Suc i - 1. r_bands dst' ! k = r_bands ?d ! k"
    using Cons.IH[OF r] by simp_all
  have len: "length (r_bands dst') = length (r_bands dst)" using ih(1) wb(2) by simp
  have here: "r_bands dst' ! (i - 1) = r_band1 src"
    using ih(3) wb Cons.prems(2) by simp
  have before: "r_bands dst' ! k = r_bands dst ! k" if "k < i - 1" for k
    using ih(3) wb(2) that by simp
  have each: "\<exists>src. fs_read files ((f # rest) ! j) = Inr src
                \<and> r_bands dst' ! (i + j - 1) = r_band1 src" if "j < length (f # rest)" for j
  proof (cases j)
    case 0
    then show ?thesis using src here by simp
  next
    case (Suc j')
    then have "j' < length rest" using that by simp
    then show ?thesis using ih(2) Suc by simp
  qed
  show ?case using len each before by simp
qed

lemma create_stack_ok:
  assumes "raster_files \<noteq> []" "set raster_files \<subseteq> fst ` set files"
  shows "\<exists>files'. create_stack files describe stack_file raster_files = Inr files'
           \<and> fst ` set files' = insert stack_file (fst ` set files)"
proof -
  obtain first rest where fr: "raster_files = first # rest" using assms(1) by (cases raster_files) auto
  then have "first \<in> fst ` set files" using assms(2) by auto
  then obtain src where src: "fs_read files first = Inr src" using fs_read_present by blast
  define dst where "dst = \<lparr>r_height = r_height src, r_width = r_width src,
                          r_transform = r_transform src, r_band1 = [],
                          r_more_bands = replicate (length raster_files - 1) [],
                          r_descriptions = replicate (length raster_files) []\<rparr>"
  define opened where "opened = fs_write files stack_file dst"
  have sub: "set raster_files \<subseteq> fst ` set opened"
    using assms(2) by (auto simp: opened_def fs_write_def)
  have len: "1 + length raster_files \<le> Suc (length (r_bands dst))"
    using fr by (simp add: dst_def length_r_bands)
  obtain dst' where w: "write_bands opened describe 1 raster_files dst = Inr dst'"
    using write_bands_ok[OF sub _ len, of describe] by auto
  have "create_stack files describe stack_file raster_files = Inr (fs_write opened stack_file dst')"
    using fr src w unfolding create_stack_def dst_def opened_def by (simp add: Let_def)
  moreover have "fst ` set (fs_write opened stack_file dst') = insert stack_file (fst ` set files)"
    by (auto simp: opened_def fs_write_def)
  ultimately show ?thesis by blast
qed

lemma create_stack_result:
  assumes "create_stack files describe stack_file raster_files = Inr files'"
    and "stack_file \<notin> set raster_files"
  shows "\<exists>stack. fs_read files' stack_file = Inr stack
           \<and> length (r_bands stack) = length raster_files
           \<and> (\<forall>j < length raster_files. \<exists>src. fs_read files (raster_files ! j) = Inr src
                  \<and> r_bands stack ! j = r_band1 src)"
proof -
  from assms(1) obtain first rest where fr: "raster_files = first # rest"
    by (cases raster_files) (auto simp: create_stack_def)
  from assms(1) fr obtain src where src: "fs_read files first = Inr src"
    by (auto simp: create_stack_def split: sum.splits)
  define dst where "dst = \<lparr>r_height = r_height src, r_width = r_width src,
                          r_transform = r_transform src, r_band1 = [],
                          r_more_bands = replicate (length raster_files - 1) [],
                          r_descriptions = replicate (length raster_files) []\<rparr>"
  define opened where "opened = fs_write files stack_file dst"
  from assms(1) fr src obtain dst' where
    w: "write_bands opened describe 1 raster_files dst = Inr dst'"
    and f: "files' = fs_write opened stack_file dst'"
    unfolding create_stack_def dst_def opened_def by (auto simp: Let_def split: sum.splits)
  have res: "length (r_bands dst') = length (r_bands dst)"
    "\<forall>j < length raster_files. \<exists>src. fs_read opened (raster_files ! j) = Inr src
                                  \<and> r_bands dst' ! (1 + j - 1) = r_band1 src"
    using write_bands_result[OF w] by simp_all
  have len: "length (r_bands dst') = length raster_files"
    using res(1) fr by (simp add: dst_def length_r_bands)
  have "\<exists>src. fs_read files (raster_files ! j) = Inr src \<and> r_bands dst' ! j = r_band1 src"
    if "j < length raster_files" for j
  proof -
    have "raster_files ! j \<noteq> stack_file" using assms(2) that by (metis nth_mem)
    then have eq: "fs_read opened (raster_files ! j) = fs_read files (raster_files ! j)"
      unfolding opened_def by (rule fs_read_write_other)
    from res(2) that obtain src where "fs_read opened (raster_files ! j) = Inr src"
      "r_bands dst' ! j = r_band1 src" by auto
    then show ?thesis using eq by auto
  qed
  then show ?thesis using f len fs_read_write_same by auto
qed

lemma map_exn_ok:
  "(\<And>x. x \<in> set xs \<Longrightarrow> \<exists>y. f x = Inr y) \<Longrightarrow> \<exists>ys. map_exn f xs = Inr ys"
proof (induction xs)
  case Nil
  then show ?case by simp
next
  case (Cons x xs)
  obtain y where y: "f x = Inr y" using Cons.prems by auto
  obtain ys where ys: "map_exn f xs = Inr ys" using Cons by auto
  show ?case using y ys by simp
qed

lemma map_exn_result:
  "map_exn f xs = Inr ys \<Longrightarrow>
   length ys = length xs \<and> (\<forall>j < length xs. f (xs ! j) = Inr (ys ! j))"
proof (induction xs arbitrary: ys)
  case Nil
  then show ?case by simp
next
  case (Cons x xs)
  from Cons.prems obtain y ys' where y: "f x = Inr y" and ys': "map_exn f xs = Inr ys'"
    and e: "ys = y # ys'"
    by (auto split: sum.splits)
  have ih: "length ys' = length xs" "\<forall>j < length xs. f (xs ! j) = Inr (ys' ! j)"
    using Cons.IH[OF ys'] by simp_all
  have "f ((x # xs) ! j) = Inr (ys ! j)" if "j < length (x # xs)" for j
    using that y ih(2) e by (cases j) auto
  then show ?case using ih(1) e by simp
qed

lemma catalog_entry_ok:
  assumes "daily_name (basename f)"
  shows "\<exists>e. catalog_entry (i, f) = Inr e"
proof -
  obtain v where v: "py_index (py_split ''_'' (basename f)) 1 = Inr v"
    using py_split_index1[OF daily_name_parts(1)[OF assms]] by auto
  obtain d where d: "py_index (py_split ''_daily_'' (basename f)) 1 = Inr d"
    using py_split_index1[OF daily_name_parts(2)[OF assms]] by auto
  show ?thesis using v d by (simp add: catalog_entry_def)
qed

lemma catalog_entry_result:
  "catalog_entry (i, f) = Inr e \<Longrightarrow> band_number e = i + 1 \<and> filename e = basename f"
  by (auto simp: catalog_entry_def split: sum.splits)

lemma make_catalog_ok:
  assumes "\<And>f. f \<in> set all_daily_rasters \<Longrightarrow> daily_name (basename f)"
  shows "\<exists>cat. make_catalog all_daily_rasters = Inr cat"
proof -
  have "\<exists>v. py_index (py_split ''_'' (basename f)) 1 = Inr v" if "f \<in> set all_daily_rasters" for f
    using py_split_index1[OF daily_name_parts(1)[OF assms[OF that]]] by auto
  then obtain vars where
    vars: "map_exn (\<lambda>f. py_index (py_split ''_'' (basename f)) 1) all_daily_rasters = Inr vars"
    using map_exn_ok[of all_daily_rasters "\<lambda>f. py_index (py_split ''_'' (basename f)) 1"] by blast
  have "\<exists>e. catalog_entry p = Inr e" if "p \<in> set (enumerate 0 all_daily_rasters)" for p
  proof -
    obtain i f where p: "p = (i, f)" by (cases p)
    then have "f \<in> set all_daily_rasters" using that by (auto simp: in_set_enumerate_eq)
    then show ?thesis using catalog_entry_ok[OF assms] p by blast
  qed
  then obtain entries where "map_exn catalog_entry (enumerate 0 all_daily_rasters) = Inr entries"
    using map_exn_ok[of "enumerate 0 all_daily_rasters" catalog_entry] by blast
  then show ?thesis using vars by (simp add: make_catalog_def)
qed

lemma make_catalog_result:
  assumes "make_catalog all_daily_rasters = Inr cat"
  shows "total_bands cat = length all_daily_rasters
       \<and> multi_geostack_file cat = multi_geostack_path
       \<and> length (band_catalog cat) = length all_daily_rasters
       \<and> (\<forall>j < length all_daily_rasters.
            band_number (band_catalog cat ! j) = j + 1
          \<and> filename (band_catalog cat ! j) = basename (all_daily_rasters ! j))"
proof -
  from assms obtain vars entries where
    e: "map_exn catalog_entry (enumerate 0 all_daily_rasters) = Inr entries"
    and c: "cat = \<lparr>multi_geostack_file = multi_geostack_path,
                   total_bands = length all_daily_rasters,
                   catalog_variables = set vars, band_catalog = entries\<rparr>"
    by (auto simp: make_catalog_def split: sum.splits)
  have r: "length entries = length all_daily_rasters"
    "\<forall>j < length all_daily_rasters.
        catalog_entry (enumerate 0 all_daily_rasters ! j) = Inr (entries ! j)"
    using map_exn_result[OF e] by simp_all
  have "band_number (entries ! j) = j + 1 \<and> filename (entries ! j) = basename (all_daily_rasters ! j)"
    if "j < length all_daily_rasters" for j
  proof -
    have "catalog_entry (j, all_daily_rasters ! j) = Inr (entries ! j)"
      using r(2) that by (simp add: nth_enumerate_eq)
    then show ?thesis by (rule catalog_entry_result)
  qed
  then show ?thesis using c r(1) by simp
qed



section \<open>The stack of all daily rasters and its catalog\<close>

text \<open>
  Claim C2. When the assembler succeeds on a list of raster files (the list the
  pipeline globs, or any list that does not contain the stack's own path), the stack
  has one band per file and the catalog one entry per file, in list order: entry \<open>k\<close>
  has band number \<open>k\<close> and the name of the \<open>k\<close>-th file, and band \<open>k\<close> of the stack is
  the first band of that file. Nothing is reordered or left out. On the list the
  pipeline globs the assembler does succeed, as shown just above.
\<close>

theorem catalog_matches_bands:
  assumes "assemble files all_daily_rasters = Inr (files', cat)"
    and "all_daily_rasters = glob_daily files \<or> multi_geostack_path \<notin> set all_daily_rasters"
  shows "\<exists>stack. fs_read files' (multi_geostack_file cat) = Inr stack
           \<and> length (r_bands stack) = length all_daily_rasters
           \<and> total_bands cat = length all_daily_rasters
           \<and> map filename (band_catalog cat) = map basename all_daily_rasters
           \<and> map band_number (band_catalog cat) = [1 ..< Suc (length all_daily_rasters)]
           \<and> (\<forall>k. 1 \<le> k \<and> k \<le> length all_daily_rasters \<longrightarrow>
                  band_number (band_catalog cat ! (k - 1)) = k
                \<and> filename (band_catalog cat ! (k - 1)) = basename (all_daily_rasters ! (k - 1))
                \<and> (\<exists>src. fs_read files (all_daily_rasters ! (k - 1)) = Inr src
                        \<and> r_bands stack ! (k - 1) = r_band1 src))"
proof -
  from assms(1) have
    c: "create_stack files multi_band_description multi_geostack_path all_daily_rasters = Inr files'"
    and m: "make_catalog all_daily_rasters = Inr cat"
    by (auto simp: assemble_def split: sum.splits)
  have notin: "multi_geostack_path \<notin> set all_daily_rasters"
    using assms(2) stack_not_daily by auto
  obtain stack where s: "fs_read files' multi_geostack_path = Inr stack"
    "length (r_bands stack) = length all_daily_rasters"
    "\<forall>j < length all_daily_rasters. \<exists>src. fs_read files (all_daily_rasters ! j) = Inr src
                  \<and> r_bands stack ! j = r_band1 src"
    using create_stack_result[OF c notin] by blast
  note mc = make_catalog_result[OF m]
  have names: "map filename (band_catalog cat) = map basename all_daily_rasters"
    using mc by (intro nth_equalityI) auto
  have numbers: "map band_number (band_catalog cat) = [1 ..< Suc (length all_daily_rasters)]"
    using mc by (intro nth_equalityI) (auto simp: nth_upt simp del: upt_Suc)
  have each: "band_number (band_catalog cat ! (k - 1)) = k
                \<and> filename (band_catalog cat ! (k - 1)) = basename (all_daily_rasters ! (k - 1))
                \<and> (\<exists>src. fs_read files (all_daily_rasters ! (k - 1)) = Inr src
                        \<and> r_bands stack ! (k - 1) = r_band1 src)"
    if "1 \<le> k \<and> k \<le> length all_daily_rasters" for k
  proof -
    have "k - 1 < length all_daily_rasters" using that by auto
    then show ?thesis using mc s(3) that by auto
  qed
  show ?thesis using s(1,2) mc names numbers each by auto
qed

text \<open>Two rasters given in descending order of their dates keep that order.\<close>

lemma basename_day1: "basename day1_file = ''uganda_pm25_daily_2020-01-01.tif''"
  by (simp add: day1_file_def daily_file_name_def basename_out_path)

lemma basename_day2: "basename day2_file = ''uganda_pm25_daily_2020-01-02.tif''"
  by (simp add: day2_file_def daily_file_name_def basename_out_path)

lemma day_files_differ: "day1_file \<noteq> day2_file" "day2_file \<noteq> day1_file"
  by (simp_all add: day1_file_def day2_file_def daily_file_name_def out_path_def)

lemma assemble_two_days:
  "\<exists>files' cat. assemble two_days [day2_file, day1_file] = Inr (files', cat)"
proof -
  have ne: "[day2_file, day1_file] \<noteq> []" by simp
  have sub: "set [day2_file, day1_file] \<subseteq> fst ` set two_days" by (simp add: two_days_def)
  obtain files' where c: "create_stack two_days multi_band_description multi_geostack_path
       [day2_file, day1_file] = Inr files'"
    using create_stack_ok[OF ne sub, of multi_band_description multi_geostack_path] by blast
  have "daily_name (basename f)" if "f \<in> set [day2_file, day1_file]" for f
    using that by (auto simp: basename_day1 basename_day2 daily_name_def ends_with_def)
  then obtain cat where "make_catalog [day2_file, day1_file] = Inr cat"
    using make_catalog_ok[of "[day2_file, day1_file]"] by blast
  then show ?thesis using c by (simp add: assemble_def)
qed

lemma stack_not_day_file: "multi_geostack_path \<notin> set [day2_file, day1_file]"
  by (simp add: multi_geostack_path_def day1_file_def day2_file_def daily_file_name_def out_path_def)

theorem catalog_matches_bands_witness:
  "\<exists>files' cat stack.
      assemble two_days [day2_file, day1_file] = Inr (files', cat)
    \<and> fs_read files' (multi_geostack_file cat) = Inr stack
    \<and> map filename (band_catalog cat)
        = [''uganda_pm25_daily_2020-01-02.tif'', ''uganda_pm25_daily_2020-01-01.tif'']
    \<and> map band_number (band_catalog cat) = [1, 2]
    \<and> r_bands stack = [[[2]], [[1]]]"
proof -
  obtain files' cat where a: "assemble two_days [day2_file, day1_file] = Inr (files', cat)"
    using assemble_two_days by blast
  have h: "[day2_file, day1_file] = glob_daily two_days
           \<or> multi_geostack_path \<notin> set [day2_file, day1_file]"
    using stack_not_day_file by blast
  obtain stack where s: "fs_read files' (multi_geostack_file cat) = Inr stack"
    "length (r_bands stack) = length [day2_file, day1_file]"
    "map filename (band_catalog cat) = map basename [day2_file, day1_file]"
    "map band_number (band_catalog cat) = [1 ..< Suc (length [day2_file, day1_file])]"
    "\<forall>k. 1 \<le> k \<and> k \<le> length [day2_file, day1_file] \<longrightarrow>
                  band_number (band_catalog cat ! (k - 1)) = k
                \<and> filename (band_catalog cat ! (k - 1)) = basename ([day2_file, day1_file] ! (k - 1))
                \<and> (\<exists>src. fs_read two_days ([day2_file, day1_file] ! (k - 1)) = Inr src
                        \<and> r_bands stack ! (k - 1) = r_band1 src)"
    using catalog_matches_bands[OF a h] by blast
  have r1: "fs_read two_days day1_file = Inr (one_pixel 1)"
    by (simp add: fs_read_def two_days_def)
  have r2: "fs_read two_days day2_file = Inr (one_pixel 2)"
    using day_files_differ by (simp add: fs_read_def two_days_def)
  have k1: "r_bands stack ! 0 = [[2]]" using s(5)[rule_format, of 1] r2 by (simp add: one_pixel_def)
  have k2: "r_bands stack ! 1 = [[1]]" using s(5)[rule_format, of 2] r1 by (simp add: one_pixel_def)
  have "r_bands stack = [[[2]], [[1]]]"
    using s(2) k1 k2 by (intro nth_equalityI) (auto simp: less_Suc_eq)
  moreover have "[1 ..< Suc (length [day2_file, day1_file])] = [1, 2]" by (simp add: upt_conv_Cons)
  ultimately show ?thesis using a s(1,3,4) basename_day1 basename_day2 by simp
qed

section \<open>The pipeline returns False only when loading fails\<close>
















section \<open>Jobs with too few samples\<close>

text \<open>
  Claim C6, as the code has it. A day with fewer than 5 samples adds exactly one to
  the variable's failed interpolations, writes nothing, and the loop goes on with the
  later days. A variable with fewer than 10 samples is skipped before its log exists:
  the state of the run (directory and report, hence every failure count) is unchanged
  and the loop goes on with the later variables.
\<close>

theorem insufficient_data_skips:
  "(length (filter (\<lambda>s. s_date s = date) valid_data) < 5 \<longrightarrow>
      process_day cfg kriging rbf var g valid_data date st = fail_day st
      \<and> failed_interpolations (ds_log (fail_day st)) = failed_interpolations (ds_log st) + 1
      \<and> successful_interpolations (ds_log (fail_day st)) = successful_interpolations (ds_log st)
      \<and> ds_fs (fail_day st) = ds_fs st \<and> ds_files (fail_day st) = ds_files st
      \<and> fold (process_day cfg kriging rbf var g valid_data) (date # later_dates) st
          = fold (process_day cfg kriging rbf var g valid_data) later_dates (fail_day st))
   \<and> (length (filter (\<lambda>s. s_vals s var \<noteq> None) uganda_clean) < 10 \<longrightarrow>
      process_variable cfg kriging rbf uganda_clean var rs = Inr rs
      \<and> fold_exn (process_variable cfg kriging rbf uganda_clean) (var # later_vars) rs
          = fold_exn (process_variable cfg kriging rbf uganda_clean) later_vars rs)"
  by (simp add: process_day_def process_variable_def fail_day_def Let_def)

theorem insufficient_data_skips_witness:
  "process_day default_config unavailable unavailable ''pm25'' two_sites_grid three_samples
       ''2020-01-01'' daily_start = fail_day daily_start
   \<and> failed_interpolations (ds_log (fail_day daily_start)) = 1
   \<and> ds_fs (fail_day daily_start) = []
   \<and> process_variable default_config unavailable unavailable three_samples ''pm25'' empty_state
       = Inr empty_state"
proof -
  have d: "length (filter (\<lambda>s. s_date s = ''2020-01-01'') three_samples) < 5"
    by (simp add: three_samples_def)
  have v: "length (filter (\<lambda>s. s_vals s ''pm25'' \<noteq> None) three_samples) < 10"
    by (simp add: three_samples_def)
  have s: "failed_interpolations (ds_log daily_start) = 0" "ds_fs daily_start = []"
    by (simp_all add: daily_start_def)
  show ?thesis
    using d v s
      insufficient_data_skips[where valid_data = three_samples and date = "''2020-01-01''"
        and uganda_clean = three_samples and var = "''pm25''" and st = daily_start
        and rs = empty_state and cfg = default_config and kriging = unavailable
        and rbf = unavailable and g = two_sites_grid]
    by simp
qed

text \<open>
  A table with three samples of \<open>pm25\<close>: the variable is skipped, the report has no
  entry for it and its failure total is 0, not 1.
\<close>

theorem three_points_counterexample:
  "run_enhanced_uganda_analysis unavailable unavailable [] (Some three_points)
     = Inr \<lparr>returned = True, out_fs = [],
            out_summary = Some \<lparr>total_records = 3, variables_processed = [],
                                processing_results = []\<rparr>,
            out_catalog = None\<rparr>
   \<and> total_failed \<lparr>total_records = 3, variables_processed = [], processing_results = []\<rparr> = 0"
  by (simp add: run_enhanced_uganda_analysis_def load_data_def three_points_def uganda_row_def
      target_variables_def clean_row_def List.map_filter_def process_variable_def
      multi_geostack_def glob_daily_def total_failed_def Let_def)

section \<open>Orientation of the raster\<close>

text \<open>
  Whatever the samples, on a grid with two or more rows the transform places pixel
  \<open>(0, 0)\<close> at the highest grid latitude and the band holds there the estimate at the
  lowest one.
\<close>

lemma encode_daily_row0:
  assumes "grid_lat g \<noteq> []" "grid_lon g \<noteq> []"
  shows "pixel_xy (r_transform (encode_daily g (idw_surface coords vals (grid_lon g) (grid_lat g)) d)) 0 0
           = (arr_min (grid_lon g), arr_max (grid_lat g))
       \<and> r_band1 (encode_daily g (idw_surface coords vals (grid_lon g) (grid_lat g)) d) ! 0 ! 0
           = idw_cell coords vals (hd (grid_lon g)) (hd (grid_lat g))"
  using assms
  by (cases "grid_lat g"; cases "grid_lon g") (simp_all add: encode_daily_def from_bounds_def idw_surface_def)

lemma row0_is_southern_edge:
  assumes "0 < res" "0 < buf" "lats \<noteq> []" "lons \<noteq> []"
    and "build_grid res buf lats lons = Inr g"
    and "arr_min lats < arr_max lats" "res \<le> (arr_max lats - arr_min lats) * (1 + 2 * buf)"
  shows "pixel_xy (r_transform (encode_daily g (idw_surface coords vals (grid_lon g) (grid_lat g)) d)) 0 0
           = (arr_min (grid_lon g), arr_max (grid_lat g))
       \<and> r_band1 (encode_daily g (idw_surface coords vals (grid_lon g) (grid_lat g)) d) ! 0 ! 0
           = idw_cell coords vals (arr_min (grid_lon g)) (arr_min (grid_lat g))
       \<and> arr_min (grid_lat g) < arr_max (grid_lat g)"
proof -
  from assms(5) obtain a b where a: "build_axis res buf lats = Inr a"
    and b: "build_axis res buf lons = Inr b" and g: "g = \<lparr>grid_lat = a, grid_lon = b\<rparr>"
    by (auto simp: build_grid_def split: sum.splits)
  have buf: "0 \<le> buf" using assms(2) by simp
  have fa: "a \<noteq> []" "hd a = arr_min a"
    using build_axis_first[OF assms(1) buf assms(3) a] by simp_all
  have fb: "b \<noteq> []" "hd b = arr_min b"
    using build_axis_first[OF assms(1) buf assms(4) b] by simp_all
  have "arr_min a < arr_min lats \<and> arr_max lats < arr_max a"
    using build_axis_strict[OF assms(2,1,6,7)] a by auto
  then have strict: "arr_min a < arr_max a" using assms(6) by linarith
  show ?thesis
    using encode_daily_row0[of g coords vals d] fa fb strict g by simp
qed

text \<open>
  Claim C1 fails on the code. With inverse distance weighting as the method, and five
  samples of value 1 at the south-west site and five of value 3 at the north-east
  site, the grid has two rows and two columns. The transform places pixel \<open>(0, 0)\<close> at
  the north-west corner \<open>(29.999, 0.006)\<close>, where the estimate is 2; the value stored
  at pixel \<open>(0, 0)\<close> is 39/37, the estimate at the south-west corner
  \<open>(29.999, -0.001)\<close>: row 0 of the band is the lowest grid latitude.
\<close>

theorem pixel_0_0_is_south_west:
  "build_grid grid_resolution buffer_percent (map s_lat two_sites) (map s_lon two_sites)
     = Inr two_sites_grid
   \<and> fs_read (ds_fs (process_day idw_config unavailable unavailable ''pm25'' two_sites_grid
                       two_sites ''2020-01-01'' daily_start))
        (daily_file_name ''pm25'' ''2020-01-01'')
     = Inr two_sites_raster
   \<and> pixel_xy (r_transform two_sites_raster) 0 0 = (29999 / 1000, 3 / 500)
   \<and> r_band1 two_sites_raster ! 0 ! 0 = 39 / 37
   \<and> idw_cell (map (\<lambda>s. (s_lon s, s_lat s)) two_sites)
         (List.map_filter (\<lambda>s. s_vals s ''pm25'') two_sites) (29999 / 1000) (3 / 500) = 2
   \<and> idw_cell (map (\<lambda>s. (s_lon s, s_lat s)) two_sites)
         (List.map_filter (\<lambda>s. s_vals s ''pm25'') two_sites) (29999 / 1000) (- (1 / 1000)) = 39 / 37"
proof (intro conjI)
  show "build_grid grid_resolution buffer_percent (map s_lat two_sites) (map s_lon two_sites)
     = Inr two_sites_grid"
    by (simp add: build_grid_def build_axis_def linspace_def linspace_pts_def axis_cells_def
      py_int_def arr_min_def arr_max_def grid_resolution_def buffer_percent_def Let_def
      upt_conv_Cons two_sites_def pm25_sample_def two_sites_grid_def)
  have z: "idw_surface (map (\<lambda>s. (s_lon s, s_lat s)) two_sites)
      (List.map_filter (\<lambda>s. s_vals s ''pm25'') two_sites)
      [29999 / 1000, 15003 / 500] [- (1 / 1000), 3 / 500] = [[39 / 37, 2], [2, 109 / 37]]"
    by (simp add: idw_surface_def idw_cell_code weighted_mean_def two_sites_def pm25_sample_def
        List.map_filter_def eps_floor_def Let_def power2_eq_square)
  have f: "filter (\<lambda>s. s_date s = ''2020-01-01'') two_sites = two_sites"
    by (simp add: two_sites_def pm25_sample_def)
  have "ds_fs (process_day idw_config unavailable unavailable ''pm25'' two_sites_grid two_sites
              ''2020-01-01'' daily_start)
     = [(daily_file_name ''pm25'' ''2020-01-01'', two_sites_raster)]"
    unfolding process_day_def Let_def f
    by (simp add: z two_sites_grid_def idw_config_def default_config_def perform_interpolation_def
        daily_start_def fs_write_def encode_daily_def from_bounds_def arr_min_def arr_max_def
        two_sites_raster_def)
      (simp add: two_sites_def)
  then show "fs_read (ds_fs (process_day idw_config unavailable unavailable ''pm25'' two_sites_grid
                       two_sites ''2020-01-01'' daily_start))
        (daily_file_name ''pm25'' ''2020-01-01'')
     = Inr two_sites_raster"
    by (simp add: fs_read_def)
  show "pixel_xy (r_transform two_sites_raster) 0 0 = (29999 / 1000, 3 / 500)"
    by (simp add: two_sites_raster_def)
  show "r_band1 two_sites_raster ! 0 ! 0 = 39 / 37" by (simp add: two_sites_raster_def)
  show "idw_cell (map (\<lambda>s. (s_lon s, s_lat s)) two_sites)
         (List.map_filter (\<lambda>s. s_vals s ''pm25'') two_sites) (29999 / 1000) (3 / 500) = 2"
    by (simp add: idw_cell_code weighted_mean_def two_sites_def pm25_sample_def
        List.map_filter_def eps_floor_def Let_def power2_eq_square)
  show "idw_cell (map (\<lambda>s. (s_lon s, s_lat s)) two_sites)
         (List.map_filter (\<lambda>s. s_vals s ''pm25'') two_sites) (29999 / 1000) (- (1 / 1000)) = 39 / 37"
    by (simp add: idw_cell_code weighted_mean_def two_sites_def pm25_sample_def
        List.map_filter_def eps_floor_def Let_def power2_eq_square)
qed

end
